theory Spec2Isabelle
  imports Main "HOL-Library.Sublist"
begin

section \<open>Strings as the matcher reads them\<close>

text \<open>
  A JavaScript string is modelled as a \<^typ>\<open>string\<close>, one \<^typ>\<open>char\<close> per code unit
  below 256. \<open>String.prototype.trim\<close> strips white space and line terminators from both
  ends; below 256 these are TAB, LF, VT, FF, CR, SPACE and NBSP.
\<close>

definition isWhiteSpace :: "char \<Rightarrow> bool" where
  "isWhiteSpace c =
     (c \<in> set [CHR 0x09, CHR 0x0A, CHR 0x0B, CHR 0x0C, CHR 0x0D, CHR 0x20, CHR 0xA0])"

definition trim :: "string \<Rightarrow> string" where
  "trim s = rev (dropWhile isWhiteSpace (rev (dropWhile isWhiteSpace s)))"

text \<open>The character class \<open>[a-zA-Z0-9]\<close> and the test \<open>/[a-zA-Z0-9]/.test(s)\<close>.\<close>

definition isAlnumChar :: "char \<Rightarrow> bool" where
  "isAlnumChar c =
     (let n = (of_char c :: nat) in
        (97 \<le> n \<and> n \<le> 122) \<or> (65 \<le> n \<and> n \<le> 90) \<or> (48 \<le> n \<and> n \<le> 57))"

definition hasAlnum :: "string \<Rightarrow> bool" where
  "hasAlnum s = list_ex isAlnumChar s"

text \<open>
  \<open>s.split(sep)\<close> for a one-character separator: the pieces between separators, never
  an empty array. \<open>parts.join(sep)\<close> puts them together again.
\<close>

fun splitOn :: "char \<Rightarrow> string \<Rightarrow> string list" where
  "splitOn sep [] = [[]]"
| "splitOn sep (c # cs) =
     (if c = sep then [] # splitOn sep cs
      else (case splitOn sep cs of l # ls \<Rightarrow> (c # l) # ls | [] \<Rightarrow> [[c]]))"

definition split_newline :: "string \<Rightarrow> string list" where
  "split_newline s = splitOn (CHR 0x0A) s"

fun joinWith :: "char \<Rightarrow> string list \<Rightarrow> string" where
  "joinWith sep [] = []"
| "joinWith sep [p] = p"
| "joinWith sep (p # q # ps) = p @ sep # joinWith sep (q # ps)"

section \<open>The range matcher (inlinedecoration: matchDiffToCurrentFile)\<close>

text \<open>
  \<open>Diff.Change\<close> carries the text of a fragment and its flags (an absent flag is false);
  \<open>vscode.Range\<close> is its two positions, written out as four numbers.
\<close>

record Change =
  value' :: string
  added :: bool
  removed :: bool

record Range =
  startLine :: nat
  startCharacter :: nat
  endLine :: nat
  endCharacter :: nat

definition lineRange :: "string list \<Rightarrow> nat \<Rightarrow> Range" where
  "lineRange documentLines j =
     \<lparr>startLine = j, startCharacter = 0, endLine = j,
      endCharacter = length (documentLines ! j)\<rparr>"

definition isMeaningfulLine :: "string \<Rightarrow> bool" where
  "isMeaningfulLine line = (hasAlnum (trim line) \<and> \<not> prefix ''import '' (trim line))"

text \<open>
  \<open>addedLinesSet\<close> is a JavaScript \<open>Set\<close>, here a list without duplicates: \<open>size\<close> is
  its length and \<open>has\<close> is membership. Nothing in the function depends on its order.
\<close>

definition addedLinesSet :: "Change list \<Rightarrow> string list" where
  "addedLinesSet diff =
     remdups (filter (\<lambda>line. length (trim line) > 0)
       (concat (map (\<lambda>change. map trim (split_newline (value' change))) (filter added diff))))"

text \<open>
  The scan of the document: \<open>i\<close> is the index of the next line, the state is
  \<open>matchingLineNumbers\<close> and the map \<open>lineOccurrences\<close>.
\<close>

fun scanDocument ::
  "string list \<Rightarrow> string list \<Rightarrow> nat \<Rightarrow> nat list \<times> (string \<rightharpoonup> nat) \<Rightarrow> nat list \<times> (string \<rightharpoonup> nat)"
where
  "scanDocument addedLines [] i st = st"
| "scanDocument addedLines (l # ls) i (matchingLineNumbers, lineOccurrences) =
     (let trimmedLine = trim l in
      if trimmedLine \<in> set addedLines
      then scanDocument addedLines ls (Suc i)
             (matchingLineNumbers @ [i],
              lineOccurrences(trimmedLine \<mapsto>
                (case lineOccurrences trimmedLine of None \<Rightarrow> 0 | Some n \<Rightarrow> n) + 1))
      else scanDocument addedLines ls (Suc i) (matchingLineNumbers, lineOccurrences))"

text \<open>
  What one finished run \<open>start..end\<close> adds to \<open>multiLineRanges\<close>: the body of the
  \<open>if (nextLine === undefined || nextLine !== currentLine + 1)\<close> block.
\<close>

definition closeRun :: "string list \<Rightarrow> (string \<rightharpoonup> nat) \<Rightarrow> nat \<Rightarrow> nat \<Rightarrow> Range list" where
  "closeRun documentLines lineOccurrences start end' =
     (let meaningfulLines =
            length (filter (\<lambda>j. hasAlnum (trim (documentLines ! j))) [start..<Suc end'])
      in if meaningfulLines \<ge> 2 then map (lineRange documentLines) [start..<Suc end']
         else if meaningfulLines = 1 then
           (let trimmedLine = trim (documentLines ! start) in
            if lineOccurrences trimmedLine = Some 1 \<and> isMeaningfulLine trimmedLine
            then [lineRange documentLines start] else [])
         else [])"

text \<open>
  The loop over \<open>matchingLineNumbers\<close>. \<open>start\<close> is \<open>None\<close> where the source holds
  the sentinel \<open>-1\<close>; \<open>nextLine\<close> is the head of the rest, \<open>undefined\<close> when the rest is
  empty.
\<close>

fun groupRuns ::
  "string list \<Rightarrow> (string \<rightharpoonup> nat) \<Rightarrow> nat list \<Rightarrow> nat option \<Rightarrow> Range list \<Rightarrow> Range list"
where
  "groupRuns documentLines lineOccurrences [] start multiLineRanges = multiLineRanges"
| "groupRuns documentLines lineOccurrences (currentLine # rest) start multiLineRanges =
     (let start1 = (case start of None \<Rightarrow> currentLine | Some s \<Rightarrow> s) in
      if (case rest of [] \<Rightarrow> True | nextLine # _ \<Rightarrow> nextLine \<noteq> currentLine + 1)
      then groupRuns documentLines lineOccurrences rest None
             (multiLineRanges @ closeRun documentLines lineOccurrences start1 currentLine)
      else groupRuns documentLines lineOccurrences rest (Some start1) multiLineRanges)"

definition matchDiffToCurrentFile :: "string \<Rightarrow> Change list \<Rightarrow> Range list" where
  "matchDiffToCurrentFile documentText diff =
     (let documentLines = split_newline documentText;
          addedLines = addedLinesSet diff
      in if length addedLines = 0 then []
         else
           (let (matchingLineNumbers, lineOccurrences) =
                  scanDocument addedLines documentLines 0 ([], Map.empty)
            in if length addedLines < 5
               then map (lineRange documentLines)
                      (filter (\<lambda>line. isMeaningfulLine (documentLines ! line) \<and>
                                        lineOccurrences (trim (documentLines ! line)) = Some 1)
                         matchingLineNumbers)
               else groupRuns documentLines lineOccurrences matchingLineNumbers None []))"

subsection \<open>Vocabulary for the matcher's properties\<close>

text \<open>
  The lines of the document whose trimmed text is an added line, how often a trimmed
  text occurs in the document, and the maximal runs of consecutive matching lines.
  \<open>runs\<close> computes the runs of a list of line numbers from left to right;
  \<open>maximalRun\<close> says what a maximal run is.
\<close>

definition matchingLines :: "string list \<Rightarrow> string list \<Rightarrow> nat list" where
  "matchingLines addedLines documentLines =
     filter (\<lambda>i. trim (documentLines ! i) \<in> set addedLines) [0..<length documentLines]"

definition occurrences :: "string list \<Rightarrow> string \<Rightarrow> nat" where
  "occurrences documentLines t = length (filter (\<lambda>l. trim l = t) documentLines)"

fun runsFrom :: "nat \<Rightarrow> nat \<Rightarrow> nat list \<Rightarrow> (nat \<times> nat) list" where
  "runsFrom s e [] = [(s, e)]"
| "runsFrom s e (x # xs) = (if x = e + 1 then runsFrom s x xs else (s, e) # runsFrom x x xs)"

definition runs :: "nat list \<Rightarrow> (nat \<times> nat) list" where
  "runs ms = (case ms of [] \<Rightarrow> [] | x # xs \<Rightarrow> runsFrom x x xs)"

definition maximalRun :: "nat list \<Rightarrow> nat \<Rightarrow> nat \<Rightarrow> bool" where
  "maximalRun ms s e =
     (s \<le> e \<and> (\<forall>j\<in>{s..e}. j \<in> set ms) \<and> Suc e \<notin> set ms \<and> (s = 0 \<or> s - 1 \<notin> set ms))"

definition coversLine :: "Range \<Rightarrow> nat \<Rightarrow> bool" where
  "coversLine r j = (startLine r \<le> j \<and> j \<le> endLine r)"

definition meaningfulCount :: "string list \<Rightarrow> nat \<Rightarrow> nat \<Rightarrow> nat" where
  "meaningfulCount documentLines s e =
     length (filter (\<lambda>j. hasAlnum (trim (documentLines ! j))) [s..<Suc e])"

definition occurrencesAmong :: "string list \<Rightarrow> nat list \<Rightarrow> string \<Rightarrow> nat" where
  "occurrencesAmong documentLines lineNumbers t =
     length (filter (\<lambda>k. trim (documentLines ! k) = t) lineNumbers)"

section \<open>The snapshot model\<close>

text \<open>
  Modelled from the spec: \<open>types.ts\<close> (\<open>MessageEntry\<close>, \<open>PanelChat\<close>, \<open>StashedState\<close>,
  \<open>isStashedState\<close>, \<open>isPanelChat\<close>) is not among the sources. The records hold the fields
  the functions below read or copy; the two validity predicates are capabilities of the
  host. A field that may be absent in a parsed payload is an \<open>option\<close>, \<open>None\<close> standing
  for \<open>undefined\<close> (for \<open>deletedChats\<close>: for any value that \<open>!\<close> takes for false). The field
  \<open>id\<close> is \<open>id_message\<close>, \<open>id_panelChat\<close>.

  The two arrays of the deletion ledger are read from payloads of any age, so the model
  keeps what a parsed payload can hold in their place: nothing (\<open>undefined\<close> or \<open>null\<close>),
  a value that is no array and cannot be iterated (a boolean, a number, an object), a
  string, or an array of ids.
\<close>

record MessageEntry =
  id_message :: string
  messageText :: string
  responseText :: string

record PanelChat =
  ai_editor :: string
  id_panelChat :: string
  customTitle :: "string option"
  parent_id :: "string option"
  created_on :: string
  messages :: "MessageEntry list"

record InlineChatInfo =
  inline_chat_id :: string
  timestamp :: string

datatype idsField = Absent | NotIterable | Characters string | IdArray "string list"

record DeletedChats =
  deletedMessageIDs :: idsField
  deletedPanelChatIDs :: idsField

record StashedState =
  panelChats :: "PanelChat list"
  inlineChats :: "InlineChatInfo list option"
  schemaVersion :: string
  deletedChats :: "DeletedChats option"

definition SCHEMA_VERSION :: string where
  "SCHEMA_VERSION = ''1.0''"

text \<open>
  The default structure \<open>{panelChats: [], schemaVersion, deletedChats: {...}}\<close> that
  \<open>getGitHistory\<close> falls back to.
\<close>

definition defaultStashedState :: StashedState where
  "defaultStashedState =
     \<lparr>panelChats = [], inlineChats = None, schemaVersion = SCHEMA_VERSION,
      deletedChats = Some \<lparr>deletedMessageIDs = IdArray [], deletedPanelChatIDs = IdArray []\<rparr>\<rparr>"

section \<open>The history reconstructor (panelgit: getGitHistory)\<close>

record CommitData =
  commitHash :: string
  date :: "string option"
  commitMessage :: string
  author :: "string option"
  panelChats_c :: "PanelChat list"

record UncommittedData =
  panelChats_u :: "PanelChat list"

record GitHistoryData =
  commits :: "CommitData list"
  uncommitted :: "UncommittedData option"

text \<open>
  What the function asks of the file system, of git and of \<open>types.ts\<close>. A call that can
  throw returns an \<open>option\<close>, \<open>None\<close> when it throws.
  \<^item> \<open>existsSync\<close>: \<open>fs.existsSync(absoluteFilePath)\<close>;
  \<^item> \<open>readFileSync\<close>: the working-tree text of the tracked file;
  \<^item> \<open>JSON_parse\<close>: \<open>JSON.parse\<close>, read at the type the source assigns it to;
  \<^item> \<open>gitLog\<close>: the output of \<open>git log --reverse --follow --pretty=format:...\<close>;
  \<^item> \<open>gitShow\<close>: \<open>git show commitHash:filePath\<close>, by commit hash;
  \<^item> \<open>gitStatus\<close>: \<open>git.status()\<close>;
  \<^item> \<open>isStashedState\<close>, \<open>isPanelChat\<close>: the type guards of \<open>types.ts\<close>.
\<close>

record StatusResult =
  modified :: "string list"
  not_added :: "string list"
  created :: "string list"

record Host =
  existsSync :: bool
  readFileSync :: "string option"
  JSON_parse :: "string \<Rightarrow> StashedState option"
  isStashedState :: "StashedState \<Rightarrow> bool"
  isPanelChat :: "PanelChat \<Rightarrow> bool"
  gitLog :: "string option"
  gitShow :: "string \<Rightarrow> string option"
  gitStatus :: "StatusResult option"

text \<open>
  What the functions throw: the errors they raise themselves, and the \<open>TypeError\<close> of
  the runtime for a property read on \<open>undefined\<close> or an iteration of a value that cannot
  be iterated.
\<close>

datatype error =
  FileNotFound | GitLogFailed | GitStatusFailed | NotPanelChatStructure | TypeError
  | NoWorkspaceFolder | WriteFailed

subsection \<open>ensureDeletedChats and processCommit\<close>

definition isArray :: "idsField \<Rightarrow> bool" where
  "isArray field = (case field of IdArray _ \<Rightarrow> True | _ \<Rightarrow> False)"

definition ensureDeletedChats :: "StashedState \<Rightarrow> StashedState" where
  "ensureDeletedChats stashedState =
     (let dc0 = (case deletedChats stashedState of
                   None \<Rightarrow> \<lparr>deletedMessageIDs = IdArray [], deletedPanelChatIDs = IdArray []\<rparr>
                 | Some dc \<Rightarrow> dc);
          dc1 = (if \<not> isArray (deletedPanelChatIDs dc0)
                 then dc0\<lparr>deletedPanelChatIDs := IdArray []\<rparr>
                 else dc0);
          dc2 = (if \<not> isArray (deletedMessageIDs dc1)
                 then dc1\<lparr>deletedMessageIDs := IdArray []\<rparr>
                 else dc1)
      in stashedState\<lparr>deletedChats := Some dc2\<rparr>)"

text \<open>
  \<open>new Set(x)\<close>, as the list of its elements: empty for \<open>undefined\<close> and \<open>null\<close>, the
  characters of a string, the elements of an array, and a \<open>TypeError\<close> for a value that
  cannot be iterated.
\<close>

definition newSet :: "idsField \<Rightarrow> error + string list" where
  "newSet field =
     (case field of
        Absent \<Rightarrow> Inr []
      | NotIterable \<Rightarrow> Inl TypeError
      | Characters s \<Rightarrow> Inr (map (\<lambda>c. [c]) s)
      | IdArray ids \<Rightarrow> Inr ids)"

text \<open>
  \<open>new Set(state.deletedChats.deletedPanelChatIDs)\<close> and its sibling. The property read
  on an absent \<open>deletedChats\<close> is a \<open>TypeError\<close>.
\<close>

definition panelChatIDsOf :: "StashedState \<Rightarrow> error + string list" where
  "panelChatIDsOf s =
     (case deletedChats s of
        None \<Rightarrow> Inl TypeError
      | Some dc \<Rightarrow> newSet (deletedPanelChatIDs dc))"

definition messageIDsOf :: "StashedState \<Rightarrow> error + string list" where
  "messageIDsOf s =
     (case deletedChats s of
        None \<Rightarrow> Inl TypeError
      | Some dc \<Rightarrow> newSet (deletedMessageIDs dc))"

text \<open>
  The inner loop of \<open>processCommit\<close> over \<open>panelChat.messages\<close>: the state is the message
  list of \<open>existingPanelChat\<close> and \<open>seenMessageIds\<close>.
\<close>

fun processMessages ::
  "string set \<Rightarrow> MessageEntry list \<Rightarrow> MessageEntry list \<times> string set
     \<Rightarrow> MessageEntry list \<times> string set"
where
  "processMessages currentMessageIds [] st = st"
| "processMessages currentMessageIds (messageEntry # rest) (existingMessages, seenMessageIds) =
     (if id_message messageEntry \<in> currentMessageIds \<and> id_message messageEntry \<notin> seenMessageIds
      then processMessages currentMessageIds rest
             (existingMessages @ [messageEntry], insert (id_message messageEntry) seenMessageIds)
      else processMessages currentMessageIds rest (existingMessages, seenMessageIds))"

fun updateFirst :: "('a \<Rightarrow> bool) \<Rightarrow> ('a \<Rightarrow> 'a) \<Rightarrow> 'a list \<Rightarrow> 'a list" where
  "updateFirst P f [] = []"
| "updateFirst P f (x # xs) = (if P x then f x # xs else x # updateFirst P f xs)"

definition newPanelChat :: "PanelChat \<Rightarrow> PanelChat" where
  "newPanelChat panelChat =
     \<lparr>ai_editor = ai_editor panelChat, id_panelChat = id_panelChat panelChat,
      customTitle = customTitle panelChat, parent_id = parent_id panelChat,
      created_on = created_on panelChat, messages = []\<rparr>"

text \<open>
  The body of the outer loop over \<open>parsedContent.panelChats\<close>, and the loop: the state
  is \<open>commitData.panelChats\<close> and \<open>seenMessageIds\<close>. \<open>existingPanelChat\<close> is the first
  chat of \<open>commitData.panelChats\<close> with the id, pushed first when there is none; the
  messages are pushed onto it in place.
\<close>

definition visitPanelChat ::
  "string set \<Rightarrow> string set \<Rightarrow> PanelChat \<Rightarrow> PanelChat list \<times> string set
     \<Rightarrow> PanelChat list \<times> string set"
where
  "visitPanelChat currentMessageIds deletedPanelChatIds panelChat st =
     (let (commitPanelChats, seenMessageIds) = st;
          panelChatId = id_panelChat panelChat
      in if panelChatId \<in> deletedPanelChatIds then st
         else
           (let chats1 = (case find (\<lambda>pc. id_panelChat pc = panelChatId) commitPanelChats of
                            Some _ \<Rightarrow> commitPanelChats
                          | None \<Rightarrow> commitPanelChats @ [newPanelChat panelChat]);
                existingPanelChat = (case find (\<lambda>pc. id_panelChat pc = panelChatId) chats1 of
                                       Some pc \<Rightarrow> pc
                                     | None \<Rightarrow> newPanelChat panelChat);
                (messages1, seen1) =
                   processMessages currentMessageIds (messages panelChat)
                     (messages existingPanelChat, seenMessageIds)
            in (updateFirst (\<lambda>pc. id_panelChat pc = panelChatId)
                  (\<lambda>pc. pc\<lparr>messages := messages1\<rparr>) chats1,
                seen1)))"

fun processPanelChats ::
  "string set \<Rightarrow> string set \<Rightarrow> PanelChat list \<Rightarrow> PanelChat list \<times> string set
     \<Rightarrow> PanelChat list \<times> string set"
where
  "processPanelChats currentMessageIds deletedPanelChatIds [] st = st"
| "processPanelChats currentMessageIds deletedPanelChatIds (panelChat # rest) st =
     processPanelChats currentMessageIds deletedPanelChatIds rest
       (visitPanelChat currentMessageIds deletedPanelChatIds panelChat st)"

text \<open>
  \<open>processCommit\<close> returns the commit data and the seen set it mutates, or the error
  of one of its two reads. \<open>currentPanelChatIds\<close> and \<open>commitHash\<close> are read by the log
  messages only.
\<close>

definition processCommit ::
  "StashedState \<Rightarrow> string set \<Rightarrow> string set \<Rightarrow> string set \<Rightarrow> CommitData \<Rightarrow> string
     \<Rightarrow> error + CommitData \<times> string set"
where
  "processCommit parsedContent currentMessageIds currentPanelChatIds seenMessageIds
     commitData commitHash' =
     (let parsedContent1 = ensureDeletedChats parsedContent
      in case panelChatIDsOf parsedContent1 of
           Inl e \<Rightarrow> Inl e
         | Inr deletedPanelChatIds \<Rightarrow>
            (case messageIDsOf parsedContent1 of
               Inl e \<Rightarrow> Inl e
             | Inr deletedMessageIds \<Rightarrow>
                (let (chats, seen) =
                        processPanelChats currentMessageIds (set deletedPanelChatIds)
                          (panelChats parsedContent1) (panelChats_c commitData, seenMessageIds)
                 in Inr (commitData\<lparr>panelChats_c := chats\<rparr>, seen))))"

subsection \<open>getGitHistory\<close>

text \<open>
  Step 1: the current snapshot. A file that cannot be read, parsed or validated is
  replaced by the default structure; then come the same three checks as in
  \<open>ensureDeletedChats\<close>, which the source writes out in place.
\<close>

definition parsedCurrent :: "Host \<Rightarrow> StashedState" where
  "parsedCurrent h =
     ensureDeletedChats
       (case readFileSync h of
          None \<Rightarrow> defaultStashedState
        | Some currentContent \<Rightarrow>
            (case JSON_parse h currentContent of
               None \<Rightarrow> defaultStashedState
             | Some parsed \<Rightarrow> if isStashedState h parsed then parsed else defaultStashedState))"

text \<open>
  The loop that collects \<open>currentPanelChatIds\<close> and \<open>currentMessageIds\<close> from the chats
  of the current snapshot and the two sets read from its ledger.
\<close>

definition currentPanelChatIds :: "string set \<Rightarrow> PanelChat list \<Rightarrow> string set" where
  "currentPanelChatIds deletedPanelChatIds chats =
     set (map id_panelChat
            (filter (\<lambda>panelChat. id_panelChat panelChat \<notin> deletedPanelChatIds) chats))"

definition currentMessageIds :: "string set \<Rightarrow> string set \<Rightarrow> PanelChat list \<Rightarrow> string set" where
  "currentMessageIds deletedPanelChatIds deletedMessageIds chats =
     set (concat (map (\<lambda>panelChat.
                    map id_message
                      (filter (\<lambda>message. id_message message \<notin> deletedMessageIds)
                         (messages panelChat)))
            (filter (\<lambda>panelChat. id_panelChat panelChat \<notin> deletedPanelChatIds) chats)))"

text \<open>
  One line of the log: \<open>const [commitHash, authorName, dateStr, ...commitMsgParts] =
  line.split('\t')\<close>; a field past the end of the array is \<open>undefined\<close>.
\<close>

definition commitHashOf :: "string \<Rightarrow> string" where
  "commitHashOf line = (case splitOn (CHR 0x09) line of [] \<Rightarrow> [] | f # _ \<Rightarrow> f)"

definition authorNameOf :: "string \<Rightarrow> string option" where
  "authorNameOf line =
     (case drop 1 (splitOn (CHR 0x09) line) of [] \<Rightarrow> None | f # _ \<Rightarrow> Some f)"

definition dateStrOf :: "string \<Rightarrow> string option" where
  "dateStrOf line =
     (case drop 2 (splitOn (CHR 0x09) line) of [] \<Rightarrow> None | f # _ \<Rightarrow> Some f)"

definition commitMessageOf :: "string \<Rightarrow> string" where
  "commitMessageOf line = joinWith (CHR 0x09) (drop 3 (splitOn (CHR 0x09) line))"

definition isDeletionCommit :: "string \<Rightarrow> bool" where
  "isDeletionCommit message =
     (prefix ''Delete message with ID'' message \<or> prefix ''Delete PanelChat with ID'' message)"

text \<open>
  The body of the loop over \<open>logLines\<close>; every \<open>continue\<close> leaves the state as it is. The
  state is \<open>allCommitsMap\<close> (a \<open>Map\<close>: an association list in insertion order, one entry
  per key) and \<open>seenMessageIds\<close>. \<open>mapSet\<close> is \<open>Map.prototype.set\<close>.
\<close>

fun mapSet :: "'k \<Rightarrow> 'v \<Rightarrow> ('k \<times> 'v) list \<Rightarrow> ('k \<times> 'v) list" where
  "mapSet k v [] = [(k, v)]"
| "mapSet k v (p # ps) = (if fst p = k then (k, v) # ps else p # mapSet k v ps)"

definition visitCommit ::
  "Host \<Rightarrow> string set \<Rightarrow> string set \<Rightarrow> string
     \<Rightarrow> (string \<times> CommitData) list \<times> string set
     \<Rightarrow> error + (string \<times> CommitData) list \<times> string set"
where
  "visitCommit h currentMessageIds' currentPanelChatIds' line st =
     (let (allCommitsMap, seenMessageIds) = st;
          commitHash' = commitHashOf line;
          commitMessage' = commitMessageOf line
      in if isDeletionCommit commitMessage' then Inr st
         else case gitShow h commitHash' of
           None \<Rightarrow> Inr st
         | Some fileContent \<Rightarrow>
            (case JSON_parse h fileContent of
               None \<Rightarrow> Inr st
             | Some parsedContent \<Rightarrow>
                 if \<not> isStashedState h parsedContent then Inr st
                 else
                   (let commitData =
                          (case map_of allCommitsMap commitHash' of
                             Some cd \<Rightarrow> cd
                           | None \<Rightarrow>
                               \<lparr>commitHash = commitHash', date = dateStrOf line,
                                commitMessage = commitMessage', author = authorNameOf line,
                                panelChats_c = []\<rparr>)
                    in case processCommit parsedContent currentMessageIds' currentPanelChatIds'
                              seenMessageIds commitData commitHash' of
                         Inl e \<Rightarrow> Inl e
                       | Inr (commitData1, seen1) \<Rightarrow>
                           Inr (mapSet commitHash' commitData1 allCommitsMap, seen1))))"

text \<open>The loop: an error of \<open>processCommit\<close> is caught nowhere and ends the walk.\<close>

fun walkCommits ::
  "Host \<Rightarrow> string set \<Rightarrow> string set \<Rightarrow> string list
     \<Rightarrow> (string \<times> CommitData) list \<times> string set
     \<Rightarrow> error + (string \<times> CommitData) list \<times> string set"
where
  "walkCommits h currentMessageIds' currentPanelChatIds' [] st = Inr st"
| "walkCommits h currentMessageIds' currentPanelChatIds' (line # logLines) st =
     (case visitCommit h currentMessageIds' currentPanelChatIds' line st of
        Inl e \<Rightarrow> Inl e
      | Inr st1 \<Rightarrow> walkCommits h currentMessageIds' currentPanelChatIds' logLines st1)"

definition logLinesOf :: "string \<Rightarrow> string list" where
  "logLinesOf logData = filter (\<lambda>line. trim line \<noteq> []) (split_newline logData)"

text \<open>
  Step 3: the uncommitted changes, read from the working tree a second time and
  filtered by the file's own ledger and by \<open>currentMessageIds\<close>.
\<close>

definition uncommittedPanelChats :: "Host \<Rightarrow> string set \<Rightarrow> error + PanelChat list" where
  "uncommittedPanelChats h currentMessageIds' =
     (let parsedUncommitted = parsedCurrent h
      in case panelChatIDsOf parsedUncommitted of
           Inl e \<Rightarrow> Inl e
         | Inr uncommittedDeletedPanelChatIds \<Rightarrow>
            (case messageIDsOf parsedUncommitted of
               Inl e \<Rightarrow> Inl e
             | Inr uncommittedDeletedMessageIds \<Rightarrow>
                Inr (filter (\<lambda>pc. length (messages pc) > 0)
                       (map (\<lambda>pc. pc\<lparr>messages :=
                                     filter (\<lambda>msg. id_message msg \<notin> set uncommittedDeletedMessageIds \<and>
                                                    id_message msg \<in> currentMessageIds')
                                       (messages pc)\<rparr>)
                          (filter (\<lambda>pc. id_panelChat pc \<notin> set uncommittedDeletedPanelChatIds)
                             (panelChats parsedUncommitted))))))"

definition getGitHistory :: "Host \<Rightarrow> string \<Rightarrow> error + GitHistoryData" where
  "getGitHistory h filePath =
     (if \<not> existsSync h then Inl FileNotFound
      else
        (let current = parsedCurrent h
         in case panelChatIDsOf current of
              Inl e \<Rightarrow> Inl e
            | Inr deletedPanelChatIds \<Rightarrow>
               (case messageIDsOf current of
                  Inl e \<Rightarrow> Inl e
                | Inr deletedMessageIds \<Rightarrow>
                   (let currentPanelChatIds' =
                          currentPanelChatIds (set deletedPanelChatIds) (panelChats current);
                        currentMessageIds' =
                          currentMessageIds (set deletedPanelChatIds) (set deletedMessageIds)
                            (panelChats current)
                    in case gitLog h of
                         None \<Rightarrow> Inl GitLogFailed
                       | Some logData \<Rightarrow>
                          (case walkCommits h currentMessageIds' currentPanelChatIds'
                                  (logLinesOf logData) ([], {}) of
                             Inl e \<Rightarrow> Inl e
                           | Inr (allCommitsMap, seenMessageIds) \<Rightarrow>
                              (let allCommits =
                                     filter (\<lambda>commit. list_ex (\<lambda>pc. length (messages pc) > 0)
                                                         (panelChats_c commit))
                                       (map snd allCommitsMap)
                               in case gitStatus h of
                                    None \<Rightarrow> Inl GitStatusFailed
                                  | Some status \<Rightarrow>
                                     (case (if filePath \<in> set (modified status) \<or>
                                               filePath \<in> set (not_added status) \<or>
                                               filePath \<in> set (created status)
                                            then uncommittedPanelChats h currentMessageIds'
                                            else Inr []) of
                                        Inl e \<Rightarrow> Inl e
                                      | Inr allCurrentPanelChats \<Rightarrow>
                                          Inr \<lparr>commits = allCommits,
                                               uncommitted =
                                                 (if length allCurrentPanelChats > 0
                                                  then Some \<lparr>panelChats_u = allCurrentPanelChats\<rparr>
                                                  else None)\<rparr>)))))))"

section \<open>The snapshot store (stashedState, as listed in gait_context.md)\<close>

text \<open>
  The extension context: the two values of \<open>workspaceState\<close> the functions read, whether
  a workspace folder is open, whether the state file can be written, and the state last
  written to it (the file holds \<open>JSON.stringify\<close> of the state).
  \<open>workspaceState.get('currentPanelChats')\<close> is read as it is found: not stored, not
  an array, or an array of chats; \<open>GetFailed\<close> is a \<open>get\<close> that throws.
\<close>

datatype storedChats = GetFailed | NotStored | NotAnArray | Stored "PanelChat list"

record Context =
  stashedState_ws :: "StashedState option"
  currentPanelChats_ws :: storedChats
  workspaceFolder :: bool
  fileWritable :: bool
  stashedFile :: "StashedState option"

definition emptyStashedState :: StashedState where
  "emptyStashedState =
     \<lparr>panelChats = [], inlineChats = Some [], schemaVersion = ''1.0'',
      deletedChats = Some \<lparr>deletedMessageIDs = IdArray [], deletedPanelChatIDs = IdArray []\<rparr>\<rparr>"

definition readStashedState :: "Context \<Rightarrow> StashedState" where
  "readStashedState context' =
     (case stashedState_ws context' of None \<Rightarrow> emptyStashedState | Some stashedState \<Rightarrow> stashedState)"

text \<open>
  \<open>writeStashedState\<close> updates the workspace state and then writes the file;
  \<open>stashedStateFilePath\<close> throws without a workspace folder and a failed write is thrown
  again. The result is what was thrown, if anything, and the context left behind.
\<close>

definition writeStashedState :: "Context \<Rightarrow> StashedState \<Rightarrow> error option \<times> Context" where
  "writeStashedState context' stashedState =
     (let context1 = context'\<lparr>stashedState_ws := Some stashedState\<rparr>
      in if \<not> workspaceFolder context1 then (Some NoWorkspaceFolder, context1)
         else if \<not> fileWritable context1 then (Some WriteFailed, context1)
         else (None, context1\<lparr>stashedFile := Some stashedState\<rparr>))"

definition writeChatToStashedState :: "Context \<Rightarrow> PanelChat \<Rightarrow> error option \<times> Context" where
  "writeChatToStashedState context' newChat =
     (let currentState = readStashedState context';
          panelChats1 =
            (case find (\<lambda>chat. id_panelChat chat = id_panelChat newChat) (panelChats currentState) of
               Some _ \<Rightarrow>
                 updateFirst (\<lambda>chat. id_panelChat chat = id_panelChat newChat)
                   (\<lambda>existingChat.
                      existingChat\<lparr>messages :=
                        messages existingChat @
                        filter (\<lambda>message.
                                  \<not> list_ex (\<lambda>existingMessage.
                                               id_message existingMessage = id_message message)
                                       (messages existingChat))
                          (messages newChat)\<rparr>)
                   (panelChats currentState)
             | None \<Rightarrow> panelChats currentState @ [newChat])
      in writeStashedState context' (currentState\<lparr>panelChats := panelChats1\<rparr>))"

definition removeMessageFromStashedState :: "Context \<Rightarrow> string \<Rightarrow> error option \<times> Context" where
  "removeMessageFromStashedState context' message_id =
     (let currentState = readStashedState context'
      in case find (\<lambda>chat. list_ex (\<lambda>message. id_message message = message_id) (messages chat))
                (panelChats currentState) of
           None \<Rightarrow> (None, context')
         | Some _ \<Rightarrow>
             writeStashedState context'
               (currentState\<lparr>panelChats :=
                  updateFirst
                    (\<lambda>chat. list_ex (\<lambda>message. id_message message = message_id) (messages chat))
                    (\<lambda>chat. chat\<lparr>messages :=
                               filter (\<lambda>message. id_message message \<noteq> message_id) (messages chat)\<rparr>)
                    (panelChats currentState)\<rparr>))"

definition removePanelChatFromStashedState :: "Context \<Rightarrow> string \<Rightarrow> error option \<times> Context" where
  "removePanelChatFromStashedState context' panel_chat_id =
     (let currentState = readStashedState context'
      in writeStashedState context'
           (currentState\<lparr>panelChats :=
              filter (\<lambda>chat. id_panelChat chat \<noteq> panel_chat_id) (panelChats currentState)\<rparr>))"

section \<open>The later revision of getGitHistory (as listed in gait_context.md)\<close>

text \<open>
  The revision of \<open>panelgit.ts\<close> that \<open>gait_context.md\<close> lists in full reads the current
  snapshot from the extension context, carries inline chats, does not skip deletion
  commits, removes empty chats from every commit, and returns \<open>added\<close> beside
  \<open>uncommitted\<close>. Its \<open>PanelChat\<close> has a \<open>kv_store\<close>, which the new chat of a commit gets
  empty; the model leaves that field out.
\<close>

record CommitData_ctx = CommitData +
  inlineChats_c :: "InlineChatInfo list"

record UncommittedData_ctx = UncommittedData +
  inlineChats_u :: "InlineChatInfo list"

record GitHistoryData_ctx =
  commits_ctx :: "CommitData_ctx list"
  added_ctx :: "UncommittedData_ctx option"
  uncommitted_ctx :: "UncommittedData_ctx option"

definition processCommit_ctx ::
  "StashedState \<Rightarrow> string set \<Rightarrow> string set \<Rightarrow> string set \<Rightarrow> CommitData_ctx \<Rightarrow> string
     \<Rightarrow> error + CommitData_ctx \<times> string set"
where
  "processCommit_ctx parsedContent currentMessageIds' currentInlineChatIds seenMessageIds
     commitData commitHash' =
     (let parsedContent1 = ensureDeletedChats parsedContent
      in case panelChatIDsOf parsedContent1 of
           Inl e \<Rightarrow> Inl e
         | Inr deletedPanelChatIds \<Rightarrow>
            (case messageIDsOf parsedContent1 of
               Inl e \<Rightarrow> Inl e
             | Inr deletedMessageIds \<Rightarrow>
                (let inlineChats1 =
                        (case inlineChats parsedContent1 of
                           None \<Rightarrow> inlineChats_c commitData
                         | Some ics \<Rightarrow>
                             inlineChats_c commitData @
                             filter (\<lambda>inlineChat. inline_chat_id inlineChat \<in> currentInlineChatIds)
                               ics);
                     (chats, seen) =
                        processPanelChats currentMessageIds' (set deletedPanelChatIds)
                          (panelChats parsedContent1) (panelChats_c commitData, seenMessageIds)
                 in Inr (commitData\<lparr>panelChats_c := chats, inlineChats_c := inlineChats1\<rparr>,
                         seen))))"

text \<open>Step 1 of this revision: the snapshot of the context, or the default structure.\<close>

definition parsedCurrent_ctx :: "Context \<Rightarrow> Host \<Rightarrow> StashedState" where
  "parsedCurrent_ctx context' h =
     ensureDeletedChats
       (if isStashedState h (readStashedState context') then readStashedState context'
        else emptyStashedState)"

definition visitCommit_ctx ::
  "Host \<Rightarrow> string set \<Rightarrow> string set \<Rightarrow> string
     \<Rightarrow> (string \<times> CommitData_ctx) list \<times> string set
     \<Rightarrow> error + (string \<times> CommitData_ctx) list \<times> string set"
where
  "visitCommit_ctx h currentMessageIds' currentInlineChatIds line st =
     (let (allCommitsMap, seenMessageIds) = st;
          commitHash' = commitHashOf line;
          commitMessage' = commitMessageOf line
      in case gitShow h commitHash' of
           None \<Rightarrow> Inr st
         | Some fileContent \<Rightarrow>
            (case JSON_parse h fileContent of
               None \<Rightarrow> Inr st
             | Some parsedContent \<Rightarrow>
                 if \<not> isStashedState h parsedContent then Inr st
                 else
                   (let commitData =
                          (case map_of allCommitsMap commitHash' of
                             Some cd \<Rightarrow> cd
                           | None \<Rightarrow>
                               \<lparr>commitHash = commitHash', date = dateStrOf line,
                                commitMessage = commitMessage', author = authorNameOf line,
                                panelChats_c = [], inlineChats_c = []\<rparr>)
                    in case processCommit_ctx parsedContent currentMessageIds'
                              currentInlineChatIds seenMessageIds commitData commitHash' of
                         Inl e \<Rightarrow> Inl e
                       | Inr (commitData1, seen1) \<Rightarrow>
                           Inr (mapSet commitHash' commitData1 allCommitsMap, seen1))))"

fun walkCommits_ctx ::
  "Host \<Rightarrow> string set \<Rightarrow> string set \<Rightarrow> string list
     \<Rightarrow> (string \<times> CommitData_ctx) list \<times> string set
     \<Rightarrow> error + (string \<times> CommitData_ctx) list \<times> string set"
where
  "walkCommits_ctx h currentMessageIds' currentInlineChatIds [] st = Inr st"
| "walkCommits_ctx h currentMessageIds' currentInlineChatIds (line # logLines) st =
     (case visitCommit_ctx h currentMessageIds' currentInlineChatIds line st of
        Inl e \<Rightarrow> Inl e
      | Inr st1 \<Rightarrow> walkCommits_ctx h currentMessageIds' currentInlineChatIds logLines st1)"

text \<open>
  The \<open>map\<close> that builds \<open>allAddedPanelChats\<close>: each chat keeps its messages that are
  neither deleted nor seen, and then all its messages are added to \<open>seenMessageIds\<close>.
\<close>

fun addedPanelChats ::
  "string set \<Rightarrow> PanelChat list \<Rightarrow> string set \<Rightarrow> PanelChat list \<times> string set"
where
  "addedPanelChats deletedMessageIds [] seenMessageIds = ([], seenMessageIds)"
| "addedPanelChats deletedMessageIds (pc # rest) seenMessageIds =
     (let filteredMessages =
            filter (\<lambda>msg. id_message msg \<notin> deletedMessageIds \<and> id_message msg \<notin> seenMessageIds)
              (messages pc);
          (out, seen1) =
            addedPanelChats deletedMessageIds rest
              (seenMessageIds \<union> set (map id_message (messages pc)))
      in (pc\<lparr>messages := filteredMessages\<rparr> # out, seen1))"

definition uncommittedPanelChats_ctx ::
  "string set \<Rightarrow> string set \<Rightarrow> string set \<Rightarrow> PanelChat list \<Rightarrow> PanelChat list"
where
  "uncommittedPanelChats_ctx deletedPanelChatIds deletedMessageIds seenMessageIds
     currentUncommittedContent =
     filter (\<lambda>pc. length (messages pc) > 0)
       (map (\<lambda>pc. pc\<lparr>messages :=
                     filter (\<lambda>msg. id_message msg \<notin> deletedMessageIds \<and>
                                    id_message msg \<notin> seenMessageIds)
                       (messages pc)\<rparr>)
          (filter (\<lambda>pc. id_panelChat pc \<notin> deletedPanelChatIds) currentUncommittedContent))"

text \<open>
  \<open>workspaceState.get('currentPanelChats') || []\<close> inside its \<open>try\<close>, and the two
  checks that throw.
\<close>

definition currentUncommittedContent :: "Context \<Rightarrow> Host \<Rightarrow> error + PanelChat list" where
  "currentUncommittedContent context' h =
     (case currentPanelChats_ws context' of
        GetFailed \<Rightarrow> Inr []
      | NotStored \<Rightarrow> Inr []
      | NotAnArray \<Rightarrow> Inl NotPanelChatStructure
      | Stored chats \<Rightarrow>
          if list_all (isPanelChat h) chats then Inr chats else Inl NotPanelChatStructure)"

definition getGitHistory_ctx :: "Context \<Rightarrow> Host \<Rightarrow> string \<Rightarrow> error + GitHistoryData_ctx" where
  "getGitHistory_ctx context' h filePath =
     (if \<not> existsSync h then Inl FileNotFound
      else
       (let current = parsedCurrent_ctx context' h
        in case panelChatIDsOf current of
             Inl e \<Rightarrow> Inl e
           | Inr deletedPanelChatIds \<Rightarrow>
             (case messageIDsOf current of
                Inl e \<Rightarrow> Inl e
              | Inr deletedMessageIds \<Rightarrow>
                (let currentMessageIds' =
                       currentMessageIds (set deletedPanelChatIds) (set deletedMessageIds)
                         (panelChats current)
                 in case inlineChats current of
                      None \<Rightarrow> Inl TypeError
                    | Some currentInlineChats \<Rightarrow>
                      (let currentInlineChatIds = set (map inline_chat_id currentInlineChats)
                       in case gitLog h of
                            None \<Rightarrow> Inl GitLogFailed
                          | Some logData \<Rightarrow>
                            (case walkCommits_ctx h currentMessageIds' currentInlineChatIds
                                    (logLinesOf logData) ([], {}) of
                               Inl e \<Rightarrow> Inl e
                             | Inr (allCommitsMap, seenMessageIds) \<Rightarrow>
                               (let allCommits =
                                      filter (\<lambda>commit. list_ex (\<lambda>pc. length (messages pc) > 0)
                                                          (panelChats_c commit))
                                        (map (\<lambda>commit. commit\<lparr>panelChats_c :=
                                                 filter (\<lambda>pc. length (messages pc) > 0)
                                                   (panelChats_c commit)\<rparr>)
                                           (map snd allCommitsMap));
                                    (addedChats, seen1) =
                                      addedPanelChats (set deletedMessageIds)
                                        (filter (\<lambda>pc. id_panelChat pc \<notin> set deletedPanelChatIds)
                                           (panelChats (readStashedState context')))
                                        seenMessageIds;
                                    added' =
                                      \<lparr>panelChats_u =
                                         filter (\<lambda>pc. length (messages pc) > 0) addedChats,
                                       inlineChats_u = []\<rparr>
                                in case currentUncommittedContent context' h of
                                     Inl e \<Rightarrow> Inl e
                                   | Inr currentUncommittedContent' \<Rightarrow>
                                       Inr \<lparr>commits_ctx = allCommits,
                                            added_ctx = Some added',
                                            uncommitted_ctx =
                                              Some \<lparr>panelChats_u =
                                                       uncommittedPanelChats_ctx
                                                         (set deletedPanelChatIds)
                                                         (set deletedMessageIds) seen1
                                                         currentUncommittedContent',
                                                    inlineChats_u = []\<rparr>\<rparr>)))))))"

section \<open>Vocabulary for the properties of the reconstructor and the store\<close>

text \<open>
  The ids that the ledger of a snapshot lists: those of the array in the field, and none
  when \<open>deletedChats\<close> is absent or the field holds no array.
\<close>

definition ledgerIds :: "idsField \<Rightarrow> string list" where
  "ledgerIds field = (case field of IdArray ids \<Rightarrow> ids | _ \<Rightarrow> [])"

definition ledgerPanelChatIDs :: "StashedState \<Rightarrow> string list" where
  "ledgerPanelChatIDs s =
     (case deletedChats s of None \<Rightarrow> [] | Some dc \<Rightarrow> ledgerIds (deletedPanelChatIDs dc))"

definition ledgerMessageIDs :: "StashedState \<Rightarrow> string list" where
  "ledgerMessageIDs s =
     (case deletedChats s of None \<Rightarrow> [] | Some dc \<Rightarrow> ledgerIds (deletedMessageIDs dc))"

text \<open>
  The chat ids and the message ids that are active in a current snapshot: what the loop
  of \<open>getGitHistory\<close> collects from its chats and the ids its ledger lists.
\<close>

definition activePanelChatIds :: "StashedState \<Rightarrow> string set" where
  "activePanelChatIds current =
     currentPanelChatIds (set (ledgerPanelChatIDs current)) (panelChats current)"

definition activeMessageIds :: "StashedState \<Rightarrow> string set" where
  "activeMessageIds current =
     currentMessageIds (set (ledgerPanelChatIDs current)) (set (ledgerMessageIDs current))
       (panelChats current)"

text \<open>
  The message ids held by a list of chats, and the message ids a snapshot shows to
  \<open>processCommit\<close>: those of the chats its own ledger does not mark deleted.
\<close>

definition messageIdsIn :: "PanelChat list \<Rightarrow> string set" where
  "messageIdsIn chats = set (concat (map (\<lambda>pc. map id_message (messages pc)) chats))"

definition visibleIn :: "StashedState \<Rightarrow> string set" where
  "visibleIn s =
     messageIdsIn
       (filter (\<lambda>pc. id_panelChat pc \<notin> set (ledgerPanelChatIDs s)) (panelChats s))"

text \<open>
  The snapshot a line of the log yields when the file at its commit is read, parsed and
  validated (\<open>contentAt\<close>); the snapshot the walk of \<open>panelgit.ts\<close> goes on to process,
  which is none for a deletion commit (\<open>snapshotAt\<close>); and the message ids that snapshot
  shows (\<open>shownAt\<close>), none when the commit is skipped.
\<close>

definition contentAt :: "Host \<Rightarrow> string \<Rightarrow> StashedState option" where
  "contentAt h line =
     (case gitShow h (commitHashOf line) of
        None \<Rightarrow> None
      | Some fileContent \<Rightarrow>
          (case JSON_parse h fileContent of
             None \<Rightarrow> None
           | Some parsedContent \<Rightarrow>
               if isStashedState h parsedContent then Some parsedContent else None))"

definition snapshotAt :: "Host \<Rightarrow> string \<Rightarrow> StashedState option" where
  "snapshotAt h line =
     (if isDeletionCommit (commitMessageOf line) then None else contentAt h line)"

definition shownAt :: "Host \<Rightarrow> string \<Rightarrow> string set" where
  "shownAt h line = (case snapshotAt h line of None \<Rightarrow> {} | Some s \<Rightarrow> visibleIn s)"

text \<open>
  The active messages that line \<open>i\<close> of the log is the first to show: the messages the
  walk attributes to the commit of that line.
\<close>

definition attributedAt :: "Host \<Rightarrow> string set \<Rightarrow> string list \<Rightarrow> nat \<Rightarrow> string set" where
  "attributedAt h active logLines i =
     {m \<in> active. m \<in> shownAt h (logLines ! i) \<and>
                    (\<forall>line\<in>set (take i logLines). m \<notin> shownAt h line)}"

text \<open>
  The commit data the loop creates for a hash it has not met; the message ids of the
  commit data stored under a hash; the two invariants of \<open>allCommitsMap\<close>: one entry per
  key, each stored under its own hash (\<open>keyed\<close>), and, for the later revision, no message
  outside a given set (\<open>within\<close>).
\<close>

definition freshCommit :: "string \<Rightarrow> CommitData" where
  "freshCommit line =
     \<lparr>commitHash = commitHashOf line, date = dateStrOf line,
      commitMessage = commitMessageOf line, author = authorNameOf line, panelChats_c = []\<rparr>"

definition idsAt :: "(string \<times> CommitData) list \<Rightarrow> string \<Rightarrow> string set" where
  "idsAt allCommitsMap k =
     (case map_of allCommitsMap k of
        None \<Rightarrow> {}
      | Some cd \<Rightarrow> messageIdsIn (panelChats_c cd))"

definition keyed :: "(string \<times> CommitData) list \<Rightarrow> bool" where
  "keyed allCommitsMap =
     (distinct (map fst allCommitsMap) \<and>
      (\<forall>(k, cd)\<in>set allCommitsMap. commitHash cd = k))"

definition within :: "string set \<Rightarrow> (string \<times> CommitData_ctx) list \<Rightarrow> bool" where
  "within cur allCommitsMap =
     (\<forall>(k, cd)\<in>set allCommitsMap. messageIdsIn (panelChats_c cd) \<subseteq> cur)"

text \<open>
  For the store: how many messages of a list carry an id, the messages of the stored chat
  with a given id, and what \<open>writeChatToStashedState\<close> does to the stored chat that has the
  id of the new one.
\<close>

definition countId :: "string \<Rightarrow> MessageEntry list \<Rightarrow> nat" where
  "countId m msgs = length (filter (\<lambda>message. id_message message = m) msgs)"

definition storedMessages :: "Context \<Rightarrow> string \<Rightarrow> MessageEntry list option" where
  "storedMessages context' chatId =
     map_option messages
       (find (\<lambda>chat. id_panelChat chat = chatId) (panelChats (readStashedState context')))"

definition appendNew :: "PanelChat \<Rightarrow> PanelChat \<Rightarrow> PanelChat" where
  "appendNew newChat existingChat =
     existingChat\<lparr>messages :=
        messages existingChat @
        filter (\<lambda>message. \<not> list_ex (\<lambda>existingMessage.
                               id_message existingMessage = id_message message)
                         (messages existingChat))
          (messages newChat)\<rparr>"

section \<open>Example histories\<close>

text \<open>
  Inputs for the closed theorems below. A line of the log is \<open>hash TAB author TAB date TAB
  subject\<close>. In an example host the tracked file exists, every payload is a valid
  snapshot, the text of the file at a commit is named by the commit's hash, the text of
  the working tree is \<open>current\<close>, and \<open>git status\<close> lists the given modified paths.
\<close>

definition exampleMessage :: "string \<Rightarrow> MessageEntry" where
  "exampleMessage i = \<lparr>id_message = i, messageText = ''question'', responseText = ''answer''\<rparr>"

definition exampleChat :: "string \<Rightarrow> string list \<Rightarrow> PanelChat" where
  "exampleChat i messageIds =
     \<lparr>ai_editor = ''cursor'', id_panelChat = i, customTitle = None, parent_id = None,
      created_on = ''2024-10-02'', messages = map exampleMessage messageIds\<rparr>"

definition exampleSnapshot :: "PanelChat list \<Rightarrow> DeletedChats option \<Rightarrow> StashedState" where
  "exampleSnapshot chats ledger =
     \<lparr>panelChats = chats, inlineChats = Some [], schemaVersion = ''1.0'', deletedChats = ledger\<rparr>"

definition exampleLine :: "string \<Rightarrow> string \<Rightarrow> string" where
  "exampleLine hash subject =
     hash @ [CHR 0x09] @ ''ann'' @ [CHR 0x09] @ ''Mon Oct 7'' @ [CHR 0x09] @ subject"

definition exampleCommit :: "string \<Rightarrow> string \<Rightarrow> PanelChat list \<Rightarrow> CommitData" where
  "exampleCommit hash subject chats =
     \<lparr>commitHash = hash, date = Some ''Mon Oct 7'', commitMessage = subject,
      author = Some ''ann'', panelChats_c = chats\<rparr>"

definition exampleHost ::
  "StashedState \<Rightarrow> string list \<Rightarrow> (string \<times> StashedState) list \<Rightarrow> string list \<Rightarrow> Host"
where
  "exampleHost current logLines snapshots modifiedPaths =
     \<lparr>existsSync = True,
      readFileSync = Some ''current'',
      JSON_parse = (\<lambda>fileContent. if fileContent = ''current'' then Some current
                                   else map_of snapshots fileContent),
      isStashedState = (\<lambda>_. True),
      isPanelChat = (\<lambda>_. True),
      gitLog = Some (joinWith (CHR 0x0A) logLines),
      gitShow = (\<lambda>hash. if hash \<in> set (map fst snapshots) then Some hash else None),
      gitStatus = Some \<lparr>modified = modifiedPaths, not_added = [], created = []\<rparr>\<rparr>"

definition exampleContext :: "StashedState option \<Rightarrow> storedChats \<Rightarrow> Context" where
  "exampleContext stored chats =
     \<lparr>stashedState_ws = stored, currentPanelChats_ws = chats, workspaceFolder = True,
      fileWritable = True, stashedFile = None\<rparr>"

section \<open>Properties of the range matcher\<close>

subsection \<open>Trimming\<close>

lemma dropWhile_snoc_keep: "\<not> P h \<Longrightarrow> \<exists>zs. dropWhile P (ys @ [h]) = zs @ [h]"
  by (induction ys) auto

lemma dropWhile_fix: "xs = [] \<or> \<not> P (hd xs) \<Longrightarrow> dropWhile P xs = xs"
  by (cases xs) auto

lemma rev_dropWhile_rev_head:
  assumes "xs = [] \<or> \<not> P (hd xs)"
  shows "rev (dropWhile P (rev xs)) = [] \<or> \<not> P (hd (rev (dropWhile P (rev xs))))"
proof (cases xs)
  case Nil
  then show ?thesis by simp
next
  case (Cons h t)
  with assms have nP: "\<not> P h" by simp
  obtain zs where "dropWhile P (rev t @ [h]) = zs @ [h]"
    using dropWhile_snoc_keep [of P h "rev t"] nP by blast
  then show ?thesis using nP Cons by simp
qed

lemma dropWhile_head: "dropWhile P xs = [] \<or> \<not> P (hd (dropWhile P xs))"
  by (induction xs) auto

lemma trim_trim: "trim (trim s) = trim s"
proof -
  let ?t = "dropWhile isWhiteSpace s"
  let ?u = "rev (dropWhile isWhiteSpace (rev ?t))"
  have 1: "dropWhile isWhiteSpace ?u = ?u"
    by (rule dropWhile_fix, rule rev_dropWhile_rev_head, rule dropWhile_head)
  have 2: "dropWhile isWhiteSpace (rev ?u) = rev ?u"
    by simp
  show ?thesis unfolding trim_def using 1 2 by simp
qed

lemma isMeaningfulLine_trim: "isMeaningfulLine (trim l) = isMeaningfulLine l"
  by (simp add: isMeaningfulLine_def trim_trim)

subsection \<open>The scan and the grouping loop\<close>

lemma zip_upt_nth: "zip [i..<i + length ls] ls = map (\<lambda>k. (k, ls ! (k - i))) [i..<i + length ls]"
  by (rule nth_equalityI) auto

lemma scan_fst:
  "fst (scanDocument A ls i (nums, occ)) =
     nums @ filter (\<lambda>k. trim (ls ! (k - i)) \<in> set A) [i..<i + length ls]"
proof (induction ls arbitrary: i nums occ)
  case Nil
  then show ?case by simp
next
  case (Cons l ls)
  have shift: "filter (\<lambda>k. trim ((l # ls) ! (k - i)) \<in> set A) [Suc i..<Suc i + length ls]
             = filter (\<lambda>k. trim (ls ! (k - Suc i)) \<in> set A) [Suc i..<Suc i + length ls]"
    by (rule filter_cong) (auto simp: nth_Cons')
  have upt: "[i..<i + length (l # ls)] = i # [Suc i..<Suc i + length ls]"
    by (simp add: upt_rec)
  show ?case
    unfolding upt using shift by (simp add: Cons.IH Let_def)
qed

lemma scan_matching:
  "fst (scanDocument A ds 0 ([], Map.empty)) = matchingLines A ds"
  using scan_fst [of A ds 0 "[]" Map.empty] by (simp add: matchingLines_def)

lemma scan_snd:
  "snd (scanDocument A ls i (nums, occ)) t =
     (if t \<in> set A \<and> occurrences ls t > 0
      then Some ((case occ t of None \<Rightarrow> 0 | Some n \<Rightarrow> n) + occurrences ls t)
      else occ t)"
proof (induction ls arbitrary: i nums occ)
  case Nil
  then show ?case by (simp add: occurrences_def)
next
  case (Cons l ls)
  show ?case
    by (auto simp: Cons.IH Let_def occurrences_def)
qed

lemma scan_occurrences:
  "snd (scanDocument A ds 0 ([], Map.empty)) t =
     (if t \<in> set A \<and> occurrences ds t > 0 then Some (occurrences ds t) else None)"
  using scan_snd [of A ds 0 "[]" Map.empty t] by simp

lemma groupRuns_single:
  "groupRuns ds occ [c] st acc = acc @ closeRun ds occ (case st of None \<Rightarrow> c | Some s \<Rightarrow> s) c"
  by simp

lemma groupRuns_Cons_Cons:
  "groupRuns ds occ (c # n # rest) st acc =
     (if n \<noteq> c + 1
      then groupRuns ds occ (n # rest) None
             (acc @ closeRun ds occ (case st of None \<Rightarrow> c | Some s \<Rightarrow> s) c)
      else groupRuns ds occ (n # rest) (Some (case st of None \<Rightarrow> c | Some s \<Rightarrow> s)) acc)"
  by simp

lemma groupRuns_runsFrom:
  "groupRuns ds occ (c # rest) st acc =
     acc @ concat (map (\<lambda>(a, b). closeRun ds occ a b)
                    (runsFrom (case st of None \<Rightarrow> c | Some s \<Rightarrow> s) c rest))"
proof (induction rest arbitrary: c st acc)
  case Nil
  then show ?case by simp
next
  case (Cons n rest)
  show ?case
    by (simp only: groupRuns_Cons_Cons Cons.IH) simp
qed

lemma groupRuns_runs:
  "groupRuns ds occ ms None [] = concat (map (\<lambda>(a, b). closeRun ds occ a b) (runs ms))"
proof (cases ms)
  case Nil
  then show ?thesis by (simp add: runs_def)
next
  case (Cons c rest)
  then show ?thesis
    by (simp only: groupRuns_runsFrom runs_def) simp
qed

subsection \<open>Maximal runs\<close>

lemma runsFrom_maximal:
  assumes "s \<le> e" "sorted_wrt (<) xs" "\<forall>x\<in>set xs. e < x" "(a, b) \<in> set (runsFrom s e xs)"
  shows "a \<le> b \<and> (\<forall>j. a \<le> j \<and> j \<le> b \<longrightarrow> j \<in> {s..e} \<union> set xs) \<and>
         Suc b \<notin> {s..e} \<union> set xs \<and> (a = s \<or> (a - 1 \<notin> {s..e} \<union> set xs \<and> e < a))"
  using assms
proof (induction xs arbitrary: s e)
  case Nil
  then show ?case by auto
next
  case (Cons x xs)
  show ?case
  proof (cases "x = e + 1")
    case True
    with Cons.prems have mem: "(a, b) \<in> set (runsFrom s x xs)" by simp
    have "s \<le> x" using True Cons.prems(1) by simp
    moreover have "sorted_wrt (<) xs" "\<forall>y\<in>set xs. x < y" using Cons.prems(2) by auto
    ultimately have IH: "a \<le> b \<and> (\<forall>j. a \<le> j \<and> j \<le> b \<longrightarrow> j \<in> {s..x} \<union> set xs) \<and>
         Suc b \<notin> {s..x} \<union> set xs \<and> (a = s \<or> (a - 1 \<notin> {s..x} \<union> set xs \<and> x < a))"
      using Cons.IH mem by blast
    have U: "{s..x} \<union> set xs = {s..e} \<union> set (x # xs)"
      using True Cons.prems(1) by auto
    show ?thesis using IH True unfolding U by auto
  next
    case False
    then have xgt: "e + 1 < x" using Cons.prems(3) by auto
    have allge: "\<forall>y\<in>set (x # xs). x \<le> y" using Cons.prems(2) by auto
    from Cons.prems(4) False have "(a, b) = (s, e) \<or> (a, b) \<in> set (runsFrom x x xs)" by simp
    then show ?thesis
    proof
      assume "(a, b) = (s, e)"
      then show ?thesis using Cons.prems(1) xgt allge by auto
    next
      assume mem: "(a, b) \<in> set (runsFrom x x xs)"
      have "sorted_wrt (<) xs" "\<forall>y\<in>set xs. x < y" using Cons.prems(2) by auto
      then have IH: "a \<le> b \<and> (\<forall>j. a \<le> j \<and> j \<le> b \<longrightarrow> j \<in> {x..x} \<union> set xs) \<and>
         Suc b \<notin> {x..x} \<union> set xs \<and> (a = x \<or> (a - 1 \<notin> {x..x} \<union> set xs \<and> x < a))"
        using Cons.IH [of x x] mem by blast
      then have age: "x \<le> a" by auto
      have 1: "a \<le> b" using IH by simp
      have 2: "\<forall>j. a \<le> j \<and> j \<le> b \<longrightarrow> j \<in> {s..e} \<union> set (x # xs)" using IH by auto
      have 3: "Suc b \<notin> {s..e} \<union> set (x # xs)" using IH age 1 xgt by auto
      have 4: "a - 1 \<notin> {s..e} \<union> set (x # xs) \<and> e < a"
      proof (cases "a = x")
        case True
        then show ?thesis using xgt allge by auto
      next
        case False
        then show ?thesis using IH age xgt by auto
      qed
      show ?thesis using 1 2 3 4 by blast
    qed
  qed
qed

lemma runs_maximal:
  assumes "sorted_wrt (<) ms" "(a, b) \<in> set (runs ms)"
  shows "maximalRun ms a b"
proof (cases ms)
  case Nil
  with assms show ?thesis by (simp add: runs_def)
next
  case (Cons x xs)
  with assms have mem: "(a, b) \<in> set (runsFrom x x xs)" by (simp add: runs_def)
  have srt: "sorted_wrt (<) xs" "\<forall>y\<in>set xs. x < y" using assms(1) Cons by auto
  have R: "a \<le> b \<and> (\<forall>j. a \<le> j \<and> j \<le> b \<longrightarrow> j \<in> {x..x} \<union> set xs) \<and>
         Suc b \<notin> {x..x} \<union> set xs \<and> (a = x \<or> (a - 1 \<notin> {x..x} \<union> set xs \<and> x < a))"
    using runsFrom_maximal [of x x xs a b] mem srt by blast
  have U: "{x..x} \<union> set xs = set ms" using Cons by auto
  have "a = 0 \<or> a - 1 \<notin> set ms"
  proof (cases "a = x")
    case True
    then show ?thesis using srt Cons by auto
  next
    case False
    then show ?thesis using R U by auto
  qed
  then show ?thesis using R unfolding U maximalRun_def by auto
qed

lemma runsFrom_cover:
  assumes "s \<le> e" "x \<in> {s..e} \<union> set xs"
  shows "\<exists>(a, b) \<in> set (runsFrom s e xs). a \<le> x \<and> x \<le> b"
  using assms
proof (induction xs arbitrary: s e)
  case Nil
  then show ?case by auto
next
  case (Cons y ys)
  show ?case
  proof (cases "y = e + 1")
    case True
    have "x \<in> {s..y} \<union> set ys" using Cons.prems True by auto
    moreover have "s \<le> y" using Cons.prems True by auto
    ultimately show ?thesis using Cons.IH [of s y] True by simp
  next
    case False
    show ?thesis
    proof (cases "x \<in> {s..e}")
      case True
      then show ?thesis using False by auto
    next
      case nin: False
      then have "x \<in> {y..y} \<union> set ys" using Cons.prems by auto
      then show ?thesis using Cons.IH [of y y] False by auto
    qed
  qed
qed

lemma runs_cover:
  assumes "x \<in> set ms"
  shows "\<exists>(a, b) \<in> set (runs ms). a \<le> x \<and> x \<le> b"
proof (cases ms)
  case Nil
  with assms show ?thesis by simp
next
  case (Cons y ys)
  then have "x \<in> {y..y} \<union> set ys" using assms by auto
  then show ?thesis using runsFrom_cover [of y y x ys] Cons by (simp add: runs_def)
qed

lemma maximalRun_unique:
  assumes "maximalRun ms a b" "maximalRun ms s e" "a \<le> j" "j \<le> b" "s \<le> j" "j \<le> e"
  shows "a = s \<and> b = e"
proof -
  have as: "a = s"
  proof (rule ccontr)
    assume ne: "a \<noteq> s"
    show False
    proof (cases "a < s")
      case True
      then have "s - 1 \<in> {a..b}" using assms by auto
      then have "s - 1 \<in> set ms" using assms(1) unfolding maximalRun_def by blast
      then show False using assms(2) True unfolding maximalRun_def by auto
    next
      case False
      then have lt: "s < a" using ne by simp
      then have "a - 1 \<in> {s..e}" using assms by auto
      then have "a - 1 \<in> set ms" using assms(2) unfolding maximalRun_def by blast
      then show False using assms(1) lt unfolding maximalRun_def by auto
    qed
  qed
  have be: "b = e"
  proof (rule ccontr)
    assume ne: "b \<noteq> e"
    show False
    proof (cases "b < e")
      case True
      then have "Suc b \<in> {s..e}" using assms by auto
      then have "Suc b \<in> set ms" using assms(2) unfolding maximalRun_def by blast
      then show False using assms(1) unfolding maximalRun_def by auto
    next
      case False
      then have "Suc e \<in> {a..b}" using ne assms by auto
      then have "Suc e \<in> set ms" using assms(1) unfolding maximalRun_def by blast
      then show False using assms(2) unfolding maximalRun_def by auto
    qed
  qed
  show ?thesis using as be by simp
qed

lemma maximalRun_in_runs:
  assumes "sorted_wrt (<) ms" "maximalRun ms s e"
  shows "(s, e) \<in> set (runs ms)"
proof -
  have "s \<in> set ms" using assms(2) unfolding maximalRun_def by auto
  then obtain a b where ab: "(a, b) \<in> set (runs ms)" "a \<le> s" "s \<le> b"
    using runs_cover [of s ms] by auto
  have "maximalRun ms a b" using runs_maximal [OF assms(1) ab(1)] .
  moreover have "s \<le> e" using assms(2) unfolding maximalRun_def by simp
  ultimately have "a = s \<and> b = e"
    using maximalRun_unique [of ms a b s e s] assms(2) ab by simp
  then show ?thesis using ab(1) by simp
qed

lemma sorted_matchingLines: "sorted_wrt (<) (matchingLines A ds)"
  unfolding matchingLines_def by (rule sorted_wrt_filter) simp

subsection \<open>The two paths of the matcher\<close>

lemma occurrences_nth:
  "occurrences ds t = length (filter (\<lambda>k. trim (ds ! k) = t) [0..<length ds])"
proof -
  have "filter (\<lambda>l. trim l = t) ds = filter (\<lambda>l. trim l = t) (map (\<lambda>k. ds ! k) [0..<length ds])"
    by (simp add: map_nth)
  also have "\<dots> = map (\<lambda>k. ds ! k) (filter (\<lambda>k. trim (ds ! k) = t) [0..<length ds])"
    by (simp add: filter_map comp_def)
  finally show ?thesis by (simp add: occurrences_def)
qed

lemma occurrencesAmong_matching:
  assumes "t \<in> set A"
  shows "occurrencesAmong ds (matchingLines A ds) t = occurrences ds t"
proof -
  have "filter (\<lambda>k. trim (ds ! k) = t) (matchingLines A ds)
        = filter (\<lambda>k. trim (ds ! k) = t) [0..<length ds]"
    unfolding matchingLines_def using assms by (auto intro: filter_cong)
  then show ?thesis by (simp add: occurrencesAmong_def occurrences_nth)
qed

lemma matchingLines_iff:
  "j \<in> set (matchingLines A ds) \<longleftrightarrow> j < length ds \<and> trim (ds ! j) \<in> set A"
  by (auto simp: matchingLines_def)

lemma occurrences_pos: "j < length ds \<Longrightarrow> 0 < occurrences ds (trim (ds ! j))"
  by (auto simp: occurrences_def filter_empty_conv intro!: bexI [of _ "ds ! j"])

lemma matchDiff_large:
  assumes "5 \<le> length (addedLinesSet diff)"
  shows "matchDiffToCurrentFile dtext diff =
     concat (map (\<lambda>(a, b). closeRun (split_newline dtext)
                    (snd (scanDocument (addedLinesSet diff) (split_newline dtext) 0 ([], Map.empty))) a b)
              (runs (matchingLines (addedLinesSet diff) (split_newline dtext))))"
proof -
  obtain ms occ where sc: "scanDocument (addedLinesSet diff) (split_newline dtext) 0 ([], Map.empty) = (ms, occ)"
    by (cases "scanDocument (addedLinesSet diff) (split_newline dtext) 0 ([], Map.empty)")
  have ms: "ms = matchingLines (addedLinesSet diff) (split_newline dtext)"
    using scan_matching [of "addedLinesSet diff" "split_newline dtext"] sc by simp
  have ne: "addedLinesSet diff \<noteq> []" using assms by auto
  show ?thesis
    using assms sc ms ne by (simp add: matchDiffToCurrentFile_def Let_def groupRuns_runs)
qed

lemma matchDiff_small:
  assumes "1 \<le> length (addedLinesSet diff)" "length (addedLinesSet diff) < 5"
  shows "matchDiffToCurrentFile dtext diff =
     map (lineRange (split_newline dtext))
       (filter (\<lambda>line. isMeaningfulLine (split_newline dtext ! line) \<and>
            snd (scanDocument (addedLinesSet diff) (split_newline dtext) 0 ([], Map.empty))
               (trim (split_newline dtext ! line)) = Some 1)
          (matchingLines (addedLinesSet diff) (split_newline dtext)))"
proof -
  obtain ms occ where sc: "scanDocument (addedLinesSet diff) (split_newline dtext) 0 ([], Map.empty) = (ms, occ)"
    by (cases "scanDocument (addedLinesSet diff) (split_newline dtext) 0 ([], Map.empty)")
  have ms: "ms = matchingLines (addedLinesSet diff) (split_newline dtext)"
    using scan_matching [of "addedLinesSet diff" "split_newline dtext"] sc by simp
  have ne: "addedLinesSet diff \<noteq> []" using assms by auto
  show ?thesis
    using assms sc ms ne by (simp add: matchDiffToCurrentFile_def Let_def)
qed

lemma lineOccurrences_one:
  assumes "j < length ds" "trim (ds ! j) \<in> set A"
  shows "snd (scanDocument A ds 0 ([], Map.empty)) (trim (ds ! j)) = Some 1
         \<longleftrightarrow> occurrences ds (trim (ds ! j)) = 1"
  using assms occurrences_pos [of j ds] by (simp add: scan_occurrences)

text \<open>
  Claim C5 (small-change path). When the set of distinct, non-blank, trimmed added lines
  has 1 to 4 elements, the matcher returns, in document order, one range per line of the
  document whose trimmed text is in that set, contains an alphanumeric character, does not
  start with \<open>import \<close>, and occurs exactly once among the matching lines of the
  document; no other line is returned.
\<close>

theorem small_change_path:
  assumes "1 \<le> length (addedLinesSet diff)" and "length (addedLinesSet diff) \<le> 4"
  shows "matchDiffToCurrentFile dtext diff =
     map (lineRange (split_newline dtext))
       (filter (\<lambda>i. trim (split_newline dtext ! i) \<in> set (addedLinesSet diff) \<and>
                    hasAlnum (trim (split_newline dtext ! i)) \<and>
                    \<not> prefix ''import '' (trim (split_newline dtext ! i)) \<and>
                    occurrencesAmong (split_newline dtext)
                      (matchingLines (addedLinesSet diff) (split_newline dtext))
                      (trim (split_newline dtext ! i)) = 1)
          [0..<length (split_newline dtext)])"
proof -
  let ?ds = "split_newline dtext" and ?A = "addedLinesSet diff"
  have lt: "length ?A < 5" using assms(2) by simp
  have pull: "\<And>P. filter P (matchingLines ?A ?ds)
      = filter (\<lambda>i. trim (?ds ! i) \<in> set ?A \<and> P i) [0..<length ?ds]"
    by (simp add: matchingLines_def)
  have "filter (\<lambda>line. isMeaningfulLine (?ds ! line) \<and>
            snd (scanDocument ?A ?ds 0 ([], Map.empty)) (trim (?ds ! line)) = Some 1)
          (matchingLines ?A ?ds)
      = filter (\<lambda>i. trim (?ds ! i) \<in> set ?A \<and> hasAlnum (trim (?ds ! i)) \<and>
                    \<not> prefix ''import '' (trim (?ds ! i)) \<and>
                    occurrencesAmong ?ds (matchingLines ?A ?ds) (trim (?ds ! i)) = 1)
          [0..<length ?ds]"
    unfolding pull
    by (rule filter_cong)
       (auto simp del: One_nat_def
             simp add: lineOccurrences_one occurrencesAmong_matching isMeaningfulLine_def)
  then show ?thesis using matchDiff_small [OF assms(1) lt, of dtext] by simp
qed

lemma closeRun_member:
  assumes "r \<in> set (closeRun ds occ a b)"
  shows "r = lineRange ds (startLine r) \<and> endLine r = startLine r \<and>
         a \<le> startLine r \<and> startLine r \<le> b"
  using assms
  by (auto simp: closeRun_def Let_def lineRange_def split: if_splits)

lemma closeRun_many:
  "2 \<le> meaningfulCount ds a b \<Longrightarrow> closeRun ds occ a b = map (lineRange ds) [a..<Suc b]"
  by (simp add: closeRun_def meaningfulCount_def Let_def)

lemma closeRun_none:
  "meaningfulCount ds a b = 0 \<Longrightarrow> closeRun ds occ a b = []"
  by (simp add: closeRun_def meaningfulCount_def Let_def)

lemma closeRun_one:
  "meaningfulCount ds a b = 1 \<Longrightarrow> closeRun ds occ a b =
     (if occ (trim (ds ! a)) = Some 1 \<and> isMeaningfulLine (trim (ds ! a))
      then [lineRange ds a] else [])"
  by (simp add: closeRun_def meaningfulCount_def Let_def)

lemma filter_length_one_unique:
  assumes "length (filter P xs) = 1" "x \<in> set xs" "P x" "y \<in> set xs" "P y"
  shows "x = y"
proof -
  obtain z where z: "filter P xs = [z]"
    using assms(1) by (cases "filter P xs") auto
  have "x \<in> set (filter P xs)" "y \<in> set (filter P xs)" using assms by auto
  then show ?thesis unfolding z by simp
qed

lemma result_member_run:
  assumes "5 \<le> length (addedLinesSet diff)"
      and "r \<in> set (matchDiffToCurrentFile dtext diff)"
  shows "\<exists>a b. (a, b) \<in> set (runs (matchingLines (addedLinesSet diff) (split_newline dtext))) \<and>
           r \<in> set (closeRun (split_newline dtext)
                  (snd (scanDocument (addedLinesSet diff) (split_newline dtext) 0 ([], Map.empty))) a b)"
  using assms(2) unfolding matchDiff_large [OF assms(1)] by auto

lemma run_member_result:
  assumes "5 \<le> length (addedLinesSet diff)"
      and "maximalRun (matchingLines (addedLinesSet diff) (split_newline dtext)) s e"
  shows "set (closeRun (split_newline dtext)
                  (snd (scanDocument (addedLinesSet diff) (split_newline dtext) 0 ([], Map.empty))) s e)
         \<subseteq> set (matchDiffToCurrentFile dtext diff)"
proof -
  have "(s, e) \<in> set (runs (matchingLines (addedLinesSet diff) (split_newline dtext)))"
    using maximalRun_in_runs [OF sorted_matchingLines assms(2)] .
  then show ?thesis unfolding matchDiff_large [OF assms(1)] by force
qed

lemma result_in_run:
  assumes big: "5 \<le> length (addedLinesSet diff)"
      and mr: "maximalRun (matchingLines (addedLinesSet diff) (split_newline dtext)) s e"
      and r: "r \<in> set (matchDiffToCurrentFile dtext diff)"
      and cov: "coversLine r j" "s \<le> j" "j \<le> e"
  shows "r \<in> set (closeRun (split_newline dtext)
                  (snd (scanDocument (addedLinesSet diff) (split_newline dtext) 0 ([], Map.empty))) s e)
         \<and> startLine r = j"
proof -
  let ?ds = "split_newline dtext" and ?A = "addedLinesSet diff"
  let ?occ = "snd (scanDocument ?A ?ds 0 ([], Map.empty))"
  obtain a b where ab: "(a, b) \<in> set (runs (matchingLines ?A ?ds))"
      and rin: "r \<in> set (closeRun ?ds ?occ a b)"
    using result_member_run [OF big r] by blast
  have shape: "endLine r = startLine r" "a \<le> startLine r" "startLine r \<le> b"
    using closeRun_member [OF rin] by auto
  then have j: "startLine r = j" using cov(1) by (simp add: coversLine_def)
  have "maximalRun (matchingLines ?A ?ds) a b"
    using runs_maximal [OF sorted_matchingLines ab] .
  then have "a = s \<and> b = e"
    using maximalRun_unique [of _ a b s e j] mr shape j cov by simp
  then show ?thesis using rin j by simp
qed

text \<open>
  Claim C4 (large-change run acceptance). With 5 or more distinct added lines, for every
  maximal run \<open>s..e\<close> of consecutive matching lines: with at least two lines holding
  an alphanumeric character, every line of the run is in the result; with exactly one,
  the run contributes to the result only if that line occurs once in the document and is
  meaningful; with none, no line of the run is in the result.
\<close>

theorem large_change_run_acceptance:
  assumes big: "5 \<le> length (addedLinesSet diff)"
      and mr: "maximalRun (matchingLines (addedLinesSet diff) (split_newline dtext)) s e"
  shows "(2 \<le> meaningfulCount (split_newline dtext) s e \<longrightarrow>
            (\<forall>j\<in>{s..e}. lineRange (split_newline dtext) j \<in> set (matchDiffToCurrentFile dtext diff)))
       \<and> (meaningfulCount (split_newline dtext) s e = 1 \<longrightarrow>
            (\<exists>r\<in>set (matchDiffToCurrentFile dtext diff). \<exists>j\<in>{s..e}. coversLine r j) \<longrightarrow>
            (\<forall>k\<in>{s..e}. hasAlnum (trim (split_newline dtext ! k)) \<longrightarrow>
                occurrences (split_newline dtext) (trim (split_newline dtext ! k)) = 1 \<and>
                isMeaningfulLine (split_newline dtext ! k)))
       \<and> (meaningfulCount (split_newline dtext) s e = 0 \<longrightarrow>
            \<not> (\<exists>r\<in>set (matchDiffToCurrentFile dtext diff). \<exists>j\<in>{s..e}. coversLine r j))"
proof (intro conjI impI)
  let ?ds = "split_newline dtext" and ?A = "addedLinesSet diff"
  let ?occ = "snd (scanDocument ?A ?ds 0 ([], Map.empty))"
  {
    assume "2 \<le> meaningfulCount ?ds s e"
    then have "closeRun ?ds ?occ s e = map (lineRange ?ds) [s..<Suc e]"
      by (rule closeRun_many)
    then have "\<And>j. j \<in> {s..e} \<Longrightarrow> lineRange ?ds j \<in> set (closeRun ?ds ?occ s e)"
      by (simp del: upt_Suc)
    then show "\<forall>j\<in>{s..e}. lineRange ?ds j \<in> set (matchDiffToCurrentFile dtext diff)"
      using run_member_result [OF big mr] by blast
  }
  {
    assume one: "meaningfulCount ?ds s e = 1"
       and ex: "\<exists>r\<in>set (matchDiffToCurrentFile dtext diff). \<exists>j\<in>{s..e}. coversLine r j"
    then obtain r j where r: "r \<in> set (matchDiffToCurrentFile dtext diff)"
        and j: "s \<le> j" "j \<le> e" "coversLine r j" by auto
    have "r \<in> set (closeRun ?ds ?occ s e)"
      using result_in_run [OF big mr r j(3) j(1) j(2)] by simp
    then have acc: "?occ (trim (?ds ! s)) = Some 1" "isMeaningfulLine (trim (?ds ! s))"
      unfolding closeRun_one [OF one] by (auto split: if_splits)
    have sin: "s \<in> set (matchingLines ?A ?ds)" using mr unfolding maximalRun_def by auto
    then have slt: "s < length ?ds" "trim (?ds ! s) \<in> set ?A" by (auto simp: matchingLines_iff)
    have occ1: "occurrences ?ds (trim (?ds ! s)) = 1"
      using acc(1) lineOccurrences_one [OF slt] by simp
    have ms: "isMeaningfulLine (?ds ! s)" using acc(2) by (simp add: isMeaningfulLine_trim)
    then have hs: "hasAlnum (trim (?ds ! s))" by (simp add: isMeaningfulLine_def)
    have sle: "s \<le> e" using mr unfolding maximalRun_def by simp
    show "\<forall>k\<in>{s..e}. hasAlnum (trim (?ds ! k)) \<longrightarrow>
            occurrences ?ds (trim (?ds ! k)) = 1 \<and> isMeaningfulLine (?ds ! k)"
    proof (intro ballI impI)
      fix k assume k: "k \<in> {s..e}" and hk: "hasAlnum (trim (?ds ! k))"
      have len1: "length (filter (\<lambda>j. hasAlnum (trim (?ds ! j))) [s..<Suc e]) = 1"
        using one by (simp only: meaningfulCount_def)
      have kin: "k \<in> set [s..<Suc e]" using k by (simp del: upt_Suc)
      have sin': "s \<in> set [s..<Suc e]" using sle by (simp del: upt_Suc)
      have "k = s"
        using filter_length_one_unique [OF len1 kin hk sin' hs] .
      then show "occurrences ?ds (trim (?ds ! k)) = 1 \<and> isMeaningfulLine (?ds ! k)"
        using occ1 ms by simp
    qed
  }
  {
    assume zero: "meaningfulCount ?ds s e = 0"
    show "\<not> (\<exists>r\<in>set (matchDiffToCurrentFile dtext diff). \<exists>j\<in>{s..e}. coversLine r j)"
    proof
      assume "\<exists>r\<in>set (matchDiffToCurrentFile dtext diff). \<exists>j\<in>{s..e}. coversLine r j"
      then obtain r j where r: "r \<in> set (matchDiffToCurrentFile dtext diff)"
        and j: "s \<le> j" "j \<le> e" "coversLine r j" by auto
      have "r \<in> set (closeRun ?ds ?occ s e)"
        using result_in_run [OF big mr r j(3) j(1) j(2)] by simp
      then show False unfolding closeRun_none [OF zero] by simp
    qed
  }
qed

lemma small_member:
  assumes "1 \<le> length (addedLinesSet diff)" "length (addedLinesSet diff) < 5"
      and "r \<in> set (matchDiffToCurrentFile dtext diff)"
  shows "r = lineRange (split_newline dtext) (startLine r) \<and>
         startLine r \<in> set (matchingLines (addedLinesSet diff) (split_newline dtext))"
  using assms(3) unfolding matchDiff_small [OF assms(1,2)]
  by (auto simp: lineRange_def)

lemma large_member:
  assumes "5 \<le> length (addedLinesSet diff)"
      and "r \<in> set (matchDiffToCurrentFile dtext diff)"
  shows "r = lineRange (split_newline dtext) (startLine r) \<and>
         startLine r \<in> set (matchingLines (addedLinesSet diff) (split_newline dtext))"
proof -
  let ?ds = "split_newline dtext" and ?A = "addedLinesSet diff"
  obtain a b where ab: "(a, b) \<in> set (runs (matchingLines ?A ?ds))"
      and rin: "r \<in> set (closeRun ?ds (snd (scanDocument ?A ?ds 0 ([], Map.empty))) a b)"
    using result_member_run [OF assms] by blast
  have mr: "maximalRun (matchingLines ?A ?ds) a b"
    using runs_maximal [OF sorted_matchingLines ab] .
  have "a \<le> startLine r" "startLine r \<le> b" using closeRun_member [OF rin] by auto
  then have "startLine r \<in> set (matchingLines ?A ?ds)"
    using mr unfolding maximalRun_def by auto
  then show ?thesis using closeRun_member [OF rin] by simp
qed

lemma empty_added: "addedLinesSet diff = [] \<Longrightarrow> matchDiffToCurrentFile dtext diff = []"
  by (simp add: matchDiffToCurrentFile_def)

lemma result_member:
  assumes "r \<in> set (matchDiffToCurrentFile dtext diff)"
  shows "r = lineRange (split_newline dtext) (startLine r) \<and>
         startLine r \<in> set (matchingLines (addedLinesSet diff) (split_newline dtext))"
proof -
  have ne: "addedLinesSet diff \<noteq> []" using assms empty_added [of diff dtext] by auto
  then have 1: "1 \<le> length (addedLinesSet diff)" by (cases "addedLinesSet diff") auto
  show ?thesis
  proof (cases "length (addedLinesSet diff) < 5")
    case True
    then show ?thesis using small_member [OF 1 True assms] by simp
  next
    case False
    then have "5 \<le> length (addedLinesSet diff)" by simp
    then show ?thesis using large_member [OF _ assms] by simp
  qed
qed

text \<open>
  Claim C10 (matcher soundness). Every line covered by a returned range is a line of the
  document whose trimmed text is one of the added lines, and with no added line the
  result is empty.
\<close>

theorem matcher_soundness:
  "(\<forall>r\<in>set (matchDiffToCurrentFile dtext diff). \<forall>j. coversLine r j \<longrightarrow>
       j < length (split_newline dtext) \<and>
       trim (split_newline dtext ! j) \<in> set (addedLinesSet diff))
   \<and> (addedLinesSet diff = [] \<longrightarrow> matchDiffToCurrentFile dtext diff = [])"
proof (intro conjI ballI allI impI)
  fix r j
  assume r: "r \<in> set (matchDiffToCurrentFile dtext diff)" and c: "coversLine r j"
  have m: "r = lineRange (split_newline dtext) (startLine r)"
          "startLine r \<in> set (matchingLines (addedLinesSet diff) (split_newline dtext))"
    using result_member [OF r] by auto
  have "endLine r = startLine r" using m(1) by (metis Range.select_convs(3) lineRange_def Range.select_convs(1))
  then have "j = startLine r" using c by (simp add: coversLine_def)
  then show "j < length (split_newline dtext)"
    and "trim (split_newline dtext ! j) \<in> set (addedLinesSet diff)"
    using m(2) by (simp_all add: matchingLines_iff)
next
  assume "addedLinesSet diff = []"
  then show "matchDiffToCurrentFile dtext diff = []" by (rule empty_added)
qed

text \<open>
  Claim C6, as amended. The matcher does not merge: every returned range covers exactly
  one line of the document, from character 0 to the length of the line, and an accepted
  maximal run \<open>s..e\<close> with at least two alphanumeric lines appears in the result as
  the consecutive single-line ranges of \<open>s\<close>, \<open>s + 1\<close>, ..., \<open>e\<close>.
\<close>

theorem single_line_ranges:
  "(\<forall>r\<in>set (matchDiffToCurrentFile dtext diff).
       r = lineRange (split_newline dtext) (startLine r) \<and> endLine r = startLine r)
   \<and> (5 \<le> length (addedLinesSet diff) \<longrightarrow>
       (\<forall>s e. maximalRun (matchingLines (addedLinesSet diff) (split_newline dtext)) s e \<and>
              2 \<le> meaningfulCount (split_newline dtext) s e \<longrightarrow>
          (\<exists>before after. matchDiffToCurrentFile dtext diff =
               before @ map (lineRange (split_newline dtext)) [s..<Suc e] @ after)))"
proof (intro conjI ballI allI impI)
  fix r assume r: "r \<in> set (matchDiffToCurrentFile dtext diff)"
  then show "r = lineRange (split_newline dtext) (startLine r)"
    using result_member [OF r] by simp
  then show "endLine r = startLine r"
    by (metis Range.select_convs(3) lineRange_def Range.select_convs(1))
next
  fix s e
  let ?ds = "split_newline dtext" and ?A = "addedLinesSet diff"
  let ?occ = "snd (scanDocument ?A ?ds 0 ([], Map.empty))"
  assume big: "5 \<le> length ?A"
     and mr: "maximalRun (matchingLines ?A ?ds) s e \<and> 2 \<le> meaningfulCount ?ds s e"
  have "(s, e) \<in> set (runs (matchingLines ?A ?ds))"
    using maximalRun_in_runs [OF sorted_matchingLines] mr by simp
  then obtain rs1 rs2 where sp: "runs (matchingLines ?A ?ds) = rs1 @ (s, e) # rs2"
    by (meson split_list)
  have "closeRun ?ds ?occ s e = map (lineRange ?ds) [s..<Suc e]"
    using mr by (simp add: closeRun_many)
  then have "matchDiffToCurrentFile dtext diff =
      concat (map (\<lambda>(a, b). closeRun ?ds ?occ a b) rs1) @ map (lineRange ?ds) [s..<Suc e]
        @ concat (map (\<lambda>(a, b). closeRun ?ds ?occ a b) rs2)"
    unfolding matchDiff_large [OF big] sp by simp
  then show "\<exists>before after. matchDiffToCurrentFile dtext diff =
               before @ map (lineRange ?ds) [s..<Suc e] @ after"
    by blast
qed

text \<open>
  The example of the specification: three distinct added lines, \<open>return x\<close> twice
  in the document; only the two lines that occur once are returned.
\<close>

theorem small_change_path_witness:
  "length (addedLinesSet
      [\<lparr>value' = ''let a = 1'' @ [CHR 0x0A] @ ''return x'' @ [CHR 0x0A] @ ''let b = 2'',
        added = True, removed = False\<rparr>]) = 3
   \<and> matchDiffToCurrentFile
       (''let a = 1'' @ [CHR 0x0A] @ ''  return x'' @ [CHR 0x0A] @ ''let b = 2'' @ [CHR 0x0A] @ ''return x'')
       [\<lparr>value' = ''let a = 1'' @ [CHR 0x0A] @ ''return x'' @ [CHR 0x0A] @ ''let b = 2'',
         added = True, removed = False\<rparr>]
     = [\<lparr>startLine = 0, startCharacter = 0, endLine = 0, endCharacter = 9\<rparr>,
        \<lparr>startLine = 2, startCharacter = 0, endLine = 2, endCharacter = 9\<rparr>]"
proof -
  let ?diff = "[\<lparr>value' = ''let a = 1'' @ [CHR 0x0A] @ ''return x'' @ [CHR 0x0A] @ ''let b = 2'',
        added = True, removed = False\<rparr>]"
  let ?doc = "''let a = 1'' @ [CHR 0x0A] @ ''  return x'' @ [CHR 0x0A] @ ''let b = 2'' @ [CHR 0x0A] @ ''return x''"
  have n: "length (addedLinesSet ?diff) = 3" by code_simp
  then have h1: "1 \<le> length (addedLinesSet ?diff)" and h2: "length (addedLinesSet ?diff) \<le> 4"
    by simp_all
  have rhs: "map (lineRange (split_newline ?doc))
       (filter (\<lambda>i. trim (split_newline ?doc ! i) \<in> set (addedLinesSet ?diff) \<and>
                    hasAlnum (trim (split_newline ?doc ! i)) \<and>
                    \<not> prefix ''import '' (trim (split_newline ?doc ! i)) \<and>
                    occurrencesAmong (split_newline ?doc)
                      (matchingLines (addedLinesSet ?diff) (split_newline ?doc))
                      (trim (split_newline ?doc ! i)) = 1)
          [0..<length (split_newline ?doc)])
     = [\<lparr>startLine = 0, startCharacter = 0, endLine = 0, endCharacter = 9\<rparr>,
        \<lparr>startLine = 2, startCharacter = 0, endLine = 2, endCharacter = 9\<rparr>]"
    by code_simp
  show ?thesis using small_change_path [OF h1 h2, of ?doc] n rhs by simp
qed

text \<open>
  A document with three runs: lines 0..2 (two meaningful lines, one brace), lines 4..5
  (one meaningful, unique line) and lines 7..8 (braces only).
\<close>

theorem large_change_run_acceptance_witness:
  "lineRange
      (split_newline (''a1'' @ [CHR 0x0A] @ ''{'' @ [CHR 0x0A] @ ''b2'' @ [CHR 0x0A] @ ''XX'' @ [CHR 0x0A] @
         ''c3'' @ [CHR 0x0A] @ ''}'' @ [CHR 0x0A] @ ''YY'' @ [CHR 0x0A] @ ''{'' @ [CHR 0x0A] @ ''}'')) 1
     \<in> set (matchDiffToCurrentFile
         (''a1'' @ [CHR 0x0A] @ ''{'' @ [CHR 0x0A] @ ''b2'' @ [CHR 0x0A] @ ''XX'' @ [CHR 0x0A] @
          ''c3'' @ [CHR 0x0A] @ ''}'' @ [CHR 0x0A] @ ''YY'' @ [CHR 0x0A] @ ''{'' @ [CHR 0x0A] @ ''}'')
         [\<lparr>value' = ''a1'' @ [CHR 0x0A] @ ''{'' @ [CHR 0x0A] @ ''b2'' @ [CHR 0x0A] @ ''c3'' @ [CHR 0x0A] @ ''}'',
           added = True, removed = False\<rparr>])
   \<and> occurrences
      (split_newline (''a1'' @ [CHR 0x0A] @ ''{'' @ [CHR 0x0A] @ ''b2'' @ [CHR 0x0A] @ ''XX'' @ [CHR 0x0A] @
         ''c3'' @ [CHR 0x0A] @ ''}'' @ [CHR 0x0A] @ ''YY'' @ [CHR 0x0A] @ ''{'' @ [CHR 0x0A] @ ''}'')) ''c3'' = 1
   \<and> \<not> (\<exists>r\<in>set (matchDiffToCurrentFile
         (''a1'' @ [CHR 0x0A] @ ''{'' @ [CHR 0x0A] @ ''b2'' @ [CHR 0x0A] @ ''XX'' @ [CHR 0x0A] @
          ''c3'' @ [CHR 0x0A] @ ''}'' @ [CHR 0x0A] @ ''YY'' @ [CHR 0x0A] @ ''{'' @ [CHR 0x0A] @ ''}'')
         [\<lparr>value' = ''a1'' @ [CHR 0x0A] @ ''{'' @ [CHR 0x0A] @ ''b2'' @ [CHR 0x0A] @ ''c3'' @ [CHR 0x0A] @ ''}'',
           added = True, removed = False\<rparr>]). \<exists>j\<in>{7..8}. coversLine r j)"
proof -
  let ?doc = "''a1'' @ [CHR 0x0A] @ ''{'' @ [CHR 0x0A] @ ''b2'' @ [CHR 0x0A] @ ''XX'' @ [CHR 0x0A] @
          ''c3'' @ [CHR 0x0A] @ ''}'' @ [CHR 0x0A] @ ''YY'' @ [CHR 0x0A] @ ''{'' @ [CHR 0x0A] @ ''}''"
  let ?diff = "[\<lparr>value' = ''a1'' @ [CHR 0x0A] @ ''{'' @ [CHR 0x0A] @ ''b2'' @ [CHR 0x0A] @ ''c3'' @ [CHR 0x0A] @ ''}'',
           added = True, removed = False\<rparr>]"
  let ?ds = "split_newline ?doc"
  let ?ms = "matchingLines (addedLinesSet ?diff) ?ds"
  have big: "5 \<le> length (addedLinesSet ?diff)" by code_simp
  have ms: "?ms = [0, 1, 2, 4, 5, 7, 8]" by code_simp
  have r1: "maximalRun ?ms 0 2" unfolding ms by code_simp
  have r2: "maximalRun ?ms 4 5" unfolding ms by code_simp
  have r3: "maximalRun ?ms 7 8" unfolding ms by code_simp
  have c1: "2 \<le> meaningfulCount ?ds 0 2" by code_simp
  have c2: "meaningfulCount ?ds 4 5 = 1" by code_simp
  have c3: "meaningfulCount ?ds 7 8 = 0" by code_simp
  have res: "matchDiffToCurrentFile ?doc ?diff = map (lineRange ?ds) [0, 1, 2, 4]" by code_simp
  have "lineRange ?ds 4 \<in> set (matchDiffToCurrentFile ?doc ?diff)"
    unfolding res by simp
  moreover have "coversLine (lineRange ?ds 4) 4"
    by (simp add: coversLine_def lineRange_def)
  moreover have "(4::nat) \<in> {4..5}" by simp
  ultimately have cov: "\<exists>r\<in>set (matchDiffToCurrentFile ?doc ?diff). \<exists>j\<in>{4..5}. coversLine r j"
    by blast
  have k: "?ds ! 4 = ''c3''" by code_simp
  have hk: "hasAlnum (trim (?ds ! 4))" by code_simp
  have in1: "(1::nat) \<in> {0..2}" and in4: "(4::nat) \<in> {4..5}" by simp_all
  have "\<forall>j\<in>{0..2}. lineRange ?ds j \<in> set (matchDiffToCurrentFile ?doc ?diff)"
    using large_change_run_acceptance [OF big r1] c1 by blast
  then have a: "lineRange ?ds 1 \<in> set (matchDiffToCurrentFile ?doc ?diff)"
    using in1 by blast
  have "\<forall>k\<in>{4..5}. hasAlnum (trim (?ds ! k)) \<longrightarrow>
          occurrences ?ds (trim (?ds ! k)) = 1 \<and> isMeaningfulLine (?ds ! k)"
    using large_change_run_acceptance [OF big r2] c2 cov by blast
  then have "occurrences ?ds (trim (?ds ! 4)) = 1" using in4 hk by blast
  moreover have t4: "trim (?ds ! 4) = ''c3''" by code_simp
  ultimately have b: "occurrences ?ds ''c3'' = 1" by (simp only:)
  have c: "\<not> (\<exists>r\<in>set (matchDiffToCurrentFile ?doc ?diff). \<exists>j\<in>{7..8}. coversLine r j)"
    using large_change_run_acceptance [OF big r3] c3 by blast
  show ?thesis using a b c by (intro conjI)
qed

text \<open>
  Claim C6 as stated fails: five distinct added lines, a document of two adjacent
  matching lines with alphanumeric text. The run 0..1 is accepted and comes back as two
  ranges, one per line; no returned range starts at line 0 and ends at line 1.
\<close>

theorem merged_range_counterexample:
  "5 \<le> length (addedLinesSet
      [\<lparr>value' = ''a1'' @ [CHR 0x0A] @ ''b2'' @ [CHR 0x0A] @ ''c3'' @ [CHR 0x0A] @ ''d4'' @ [CHR 0x0A] @ ''e5'',
        added = True, removed = False\<rparr>])
   \<and> maximalRun (matchingLines (addedLinesSet
      [\<lparr>value' = ''a1'' @ [CHR 0x0A] @ ''b2'' @ [CHR 0x0A] @ ''c3'' @ [CHR 0x0A] @ ''d4'' @ [CHR 0x0A] @ ''e5'',
        added = True, removed = False\<rparr>]) (split_newline (''a1'' @ [CHR 0x0A] @ ''b2''))) 0 1
   \<and> matchDiffToCurrentFile (''a1'' @ [CHR 0x0A] @ ''b2'')
      [\<lparr>value' = ''a1'' @ [CHR 0x0A] @ ''b2'' @ [CHR 0x0A] @ ''c3'' @ [CHR 0x0A] @ ''d4'' @ [CHR 0x0A] @ ''e5'',
        added = True, removed = False\<rparr>]
     = [\<lparr>startLine = 0, startCharacter = 0, endLine = 0, endCharacter = 2\<rparr>,
        \<lparr>startLine = 1, startCharacter = 0, endLine = 1, endCharacter = 2\<rparr>]
   \<and> \<not> (\<exists>r\<in>set (matchDiffToCurrentFile (''a1'' @ [CHR 0x0A] @ ''b2'')
      [\<lparr>value' = ''a1'' @ [CHR 0x0A] @ ''b2'' @ [CHR 0x0A] @ ''c3'' @ [CHR 0x0A] @ ''d4'' @ [CHR 0x0A] @ ''e5'',
        added = True, removed = False\<rparr>]). startLine r = 0 \<and> endLine r = 1)"
  by code_simp

text \<open>
  The same input, read through the amended statement.
\<close>

theorem single_line_ranges_witness:
  "\<exists>before after. matchDiffToCurrentFile (''a1'' @ [CHR 0x0A] @ ''b2'')
      [\<lparr>value' = ''a1'' @ [CHR 0x0A] @ ''b2'' @ [CHR 0x0A] @ ''c3'' @ [CHR 0x0A] @ ''d4'' @ [CHR 0x0A] @ ''e5'',
        added = True, removed = False\<rparr>]
     = before @ [\<lparr>startLine = 0, startCharacter = 0, endLine = 0, endCharacter = 2\<rparr>,
        \<lparr>startLine = 1, startCharacter = 0, endLine = 1, endCharacter = 2\<rparr>] @ after"
proof -
  let ?doc = "''a1'' @ [CHR 0x0A] @ ''b2''"
  let ?diff = "[\<lparr>value' = ''a1'' @ [CHR 0x0A] @ ''b2'' @ [CHR 0x0A] @ ''c3'' @ [CHR 0x0A] @ ''d4'' @ [CHR 0x0A] @ ''e5'',
        added = True, removed = False\<rparr>]"
  have big: "5 \<le> length (addedLinesSet ?diff)" by code_simp
  have mr: "maximalRun (matchingLines (addedLinesSet ?diff) (split_newline ?doc)) 0 1" by code_simp
  have c: "2 \<le> meaningfulCount (split_newline ?doc) 0 1" by code_simp
  have m: "map (lineRange (split_newline ?doc)) [0..<Suc 1]
     = [\<lparr>startLine = 0, startCharacter = 0, endLine = 0, endCharacter = 2\<rparr>,
        \<lparr>startLine = 1, startCharacter = 0, endLine = 1, endCharacter = 2\<rparr>]" by code_simp
  have "\<exists>before after. matchDiffToCurrentFile ?doc ?diff
           = before @ map (lineRange (split_newline ?doc)) [0..<Suc 1] @ after"
    using single_line_ranges [of ?doc ?diff] big mr c by blast
  then show ?thesis unfolding m .
qed

text \<open>
  A matching line with white space around it, and a change that adds nothing.
\<close>

theorem matcher_soundness_witness:
  "trim (split_newline (''  a1 '' @ [CHR 0x0A] @ ''zz'') ! 0)
     \<in> set (addedLinesSet [\<lparr>value' = ''a1'', added = True, removed = False\<rparr>])
   \<and> matchDiffToCurrentFile (''  a1 '' @ [CHR 0x0A] @ ''zz'')
        [\<lparr>value' = ''a1'', added = False, removed = True\<rparr>] = []"
proof -
  let ?doc = "''  a1 '' @ [CHR 0x0A] @ ''zz''"
  let ?diff = "[\<lparr>value' = ''a1'', added = True, removed = False\<rparr>]"
  let ?r = "\<lparr>startLine = 0, startCharacter = 0, endLine = 0, endCharacter = 5\<rparr>"
  have r: "?r \<in> set (matchDiffToCurrentFile ?doc ?diff)" by code_simp
  have c: "coversLine ?r 0" by code_simp
  have a: "trim (split_newline ?doc ! 0) \<in> set (addedLinesSet ?diff)"
    using matcher_soundness [of ?doc ?diff] r c by blast
  have e: "addedLinesSet [\<lparr>value' = ''a1'', added = False, removed = True\<rparr>] = []" by code_simp
  have b: "matchDiffToCurrentFile ?doc [\<lparr>value' = ''a1'', added = False, removed = True\<rparr>] = []"
    using matcher_soundness [of ?doc "[\<lparr>value' = ''a1'', added = False, removed = True\<rparr>]"] e by blast
  show ?thesis using a b by blast
qed

section \<open>Properties of the history reconstructor\<close>

subsection \<open>processCommit: what is seen and what is attributed\<close>

lemma processMessages_seen:
  "snd (processMessages cur ms (ex, seen)) = seen \<union> (id_message ` set ms \<inter> cur)"
  by (induction ms arbitrary: ex seen) auto

lemma processMessages_ids:
  "id_message ` set (fst (processMessages cur ms (ex, seen)))
     = id_message ` set ex \<union> ((id_message ` set ms \<inter> cur) - seen)"
  by (induction ms arbitrary: ex seen) auto

lemma messageIdsIn_Nil [simp]: "messageIdsIn [] = {}"
  by (simp add: messageIdsIn_def)

lemma messageIdsIn_Cons [simp]:
  "messageIdsIn (pc # chats) = id_message ` set (messages pc) \<union> messageIdsIn chats"
  by (simp add: messageIdsIn_def)

lemma messageIdsIn_append [simp]:
  "messageIdsIn (xs @ ys) = messageIdsIn xs \<union> messageIdsIn ys"
  by (simp add: messageIdsIn_def)

lemma messageIdsIn_iff:
  "m \<in> messageIdsIn chats \<longleftrightarrow> (\<exists>pc\<in>set chats. m \<in> id_message ` set (messages pc))"
  by (induction chats) auto

lemma messageIdsIn_updateFirst:
  assumes "find P chats = Some pc0" "id_message ` set (messages pc0) \<subseteq> id_message ` set ms1"
  shows "messageIdsIn (updateFirst P (\<lambda>pc. pc\<lparr>messages := ms1\<rparr>) chats)
         = messageIdsIn chats \<union> id_message ` set ms1"
  using assms by (induction chats) (auto split: if_splits)

lemma find_append_new:
  "find P xs = None \<Longrightarrow> P y \<Longrightarrow> find P (xs @ [y]) = Some y"
  by (induction xs) (auto split: if_splits)

lemma find_Some_mem: "find P xs = Some x \<Longrightarrow> x \<in> set xs \<and> P x"
  by (induction xs) (auto split: if_splits)

lemma visitPanelChat_deleted:
  "id_panelChat pc \<in> del \<Longrightarrow> visitPanelChat cur del pc st = st"
  by (cases st) (simp add: visitPanelChat_def)

lemma visitPanelChat_seen:
  "snd (visitPanelChat cur del pc (chats, seen))
     = seen \<union> (if id_panelChat pc \<in> del then {} else id_message ` set (messages pc) \<inter> cur)"
  by (simp add: visitPanelChat_def Let_def split_beta processMessages_seen)

lemma visitPanelChat_ids:
  "messageIdsIn (fst (visitPanelChat cur del pc (chats, seen)))
     = messageIdsIn chats \<union>
       (if id_panelChat pc \<in> del then {} else (id_message ` set (messages pc) \<inter> cur) - seen)"
proof (cases "id_panelChat pc \<in> del")
  case True
  then show ?thesis by (simp add: visitPanelChat_deleted)
next
  case live: False
  let ?P = "\<lambda>c. id_panelChat c = id_panelChat pc"
  show ?thesis
  proof (cases "find ?P chats")
    case None
    have f: "find ?P (chats @ [newPanelChat pc]) = Some (newPanelChat pc)"
      by (rule find_append_new [OF None]) (simp add: newPanelChat_def)
    let ?ms1 = "fst (processMessages cur (messages pc) (messages (newPanelChat pc), seen))"
    have sub: "id_message ` set (messages (newPanelChat pc)) \<subseteq> id_message ` set ?ms1"
      by (simp add: newPanelChat_def)
    have "messageIdsIn (updateFirst ?P (\<lambda>c. c\<lparr>messages := ?ms1\<rparr>) (chats @ [newPanelChat pc]))
          = messageIdsIn (chats @ [newPanelChat pc]) \<union> id_message ` set ?ms1"
      by (rule messageIdsIn_updateFirst [OF f sub])
    also have "\<dots> = messageIdsIn chats \<union> ((id_message ` set (messages pc) \<inter> cur) - seen)"
      by (simp add: processMessages_ids newPanelChat_def)
    finally show ?thesis
      using live None f by (simp add: visitPanelChat_def Let_def split_beta)
  next
    case (Some pc0)
    let ?ms1 = "fst (processMessages cur (messages pc) (messages pc0, seen))"
    have sub: "id_message ` set (messages pc0) \<subseteq> id_message ` set ?ms1"
      by (simp add: processMessages_ids)
    have mem: "pc0 \<in> set chats" using find_Some_mem [OF Some] by simp
    have old: "id_message ` set (messages pc0) \<subseteq> messageIdsIn chats"
    proof
      fix x assume "x \<in> id_message ` set (messages pc0)"
      then show "x \<in> messageIdsIn chats" using mem messageIdsIn_iff by blast
    qed
    have "messageIdsIn (updateFirst ?P (\<lambda>c. c\<lparr>messages := ?ms1\<rparr>) chats)
          = messageIdsIn chats \<union> id_message ` set ?ms1"
      by (rule messageIdsIn_updateFirst [OF Some sub])
    also have "\<dots> = messageIdsIn chats \<union> ((id_message ` set (messages pc) \<inter> cur) - seen)"
      using old by (auto simp: processMessages_ids)
    finally show ?thesis
      using live Some by (simp add: visitPanelChat_def Let_def split_beta)
  qed
qed

lemma processPanelChats_seen:
  "snd (processPanelChats cur del pcs (chats, seen))
     = seen \<union> (messageIdsIn (filter (\<lambda>pc. id_panelChat pc \<notin> del) pcs) \<inter> cur)"
proof (induction pcs arbitrary: chats seen)
  case Nil
  then show ?case by simp
next
  case (Cons pc pcs)
  obtain chats1 seen1 where v: "visitPanelChat cur del pc (chats, seen) = (chats1, seen1)"
    by (cases "visitPanelChat cur del pc (chats, seen)")
  have s1: "seen1 = seen \<union> (if id_panelChat pc \<in> del then {} else id_message ` set (messages pc) \<inter> cur)"
    using visitPanelChat_seen [of cur del pc chats seen] v by simp
  show ?case
    by (simp add: v Cons.IH s1) auto
qed

lemma processPanelChats_ids:
  "messageIdsIn (fst (processPanelChats cur del pcs (chats, seen)))
     = messageIdsIn chats \<union>
       ((messageIdsIn (filter (\<lambda>pc. id_panelChat pc \<notin> del) pcs) \<inter> cur) - seen)"
proof (induction pcs arbitrary: chats seen)
  case Nil
  then show ?case by simp
next
  case (Cons pc pcs)
  obtain chats1 seen1 where v: "visitPanelChat cur del pc (chats, seen) = (chats1, seen1)"
    by (cases "visitPanelChat cur del pc (chats, seen)")
  have s1: "seen1 = seen \<union> (if id_panelChat pc \<in> del then {} else id_message ` set (messages pc) \<inter> cur)"
    using visitPanelChat_seen [of cur del pc chats seen] v by simp
  have c1: "messageIdsIn chats1 = messageIdsIn chats \<union>
       (if id_panelChat pc \<in> del then {} else (id_message ` set (messages pc) \<inter> cur) - seen)"
    using visitPanelChat_ids [of cur del pc chats seen] v by simp
  show ?case
    by (simp add: v Cons.IH s1 c1) auto
qed

subsection \<open>The reads of the ledger after ensureDeletedChats\<close>

lemma ensureDeletedChats_panelChats [simp]:
  "panelChats (ensureDeletedChats s) = panelChats s"
  by (simp add: ensureDeletedChats_def Let_def)

lemma panelChatIDsOf_ensureDeletedChats [simp]:
  "panelChatIDsOf (ensureDeletedChats s) = Inr (ledgerPanelChatIDs s)"
  by (simp add: panelChatIDsOf_def ensureDeletedChats_def ledgerPanelChatIDs_def ledgerIds_def
        isArray_def newSet_def Let_def split: option.splits idsField.splits)

lemma messageIDsOf_ensureDeletedChats [simp]:
  "messageIDsOf (ensureDeletedChats s) = Inr (ledgerMessageIDs s)"
  by (simp add: messageIDsOf_def ensureDeletedChats_def ledgerMessageIDs_def ledgerIds_def
        isArray_def newSet_def Let_def split: option.splits idsField.splits)

lemma ledgerPanelChatIDs_ensureDeletedChats [simp]:
  "ledgerPanelChatIDs (ensureDeletedChats s) = ledgerPanelChatIDs s"
  by (simp add: ensureDeletedChats_def ledgerPanelChatIDs_def ledgerIds_def
        isArray_def Let_def split: option.splits idsField.splits)

lemma ledgerMessageIDs_ensureDeletedChats [simp]:
  "ledgerMessageIDs (ensureDeletedChats s) = ledgerMessageIDs s"
  by (simp add: ensureDeletedChats_def ledgerMessageIDs_def ledgerIds_def
        isArray_def Let_def split: option.splits idsField.splits)

lemma panelChatIDsOf_parsedCurrent [simp]:
  "panelChatIDsOf (parsedCurrent h) = Inr (ledgerPanelChatIDs (parsedCurrent h))"
  by (simp add: parsedCurrent_def)

lemma messageIDsOf_parsedCurrent [simp]:
  "messageIDsOf (parsedCurrent h) = Inr (ledgerMessageIDs (parsedCurrent h))"
  by (simp add: parsedCurrent_def)

lemma processCommit_reads:
  "processCommit s cur curP seen cd hash =
     Inr (cd\<lparr>panelChats_c :=
            fst (processPanelChats cur (set (ledgerPanelChatIDs s)) (panelChats s)
                   (panelChats_c cd, seen))\<rparr>,
          snd (processPanelChats cur (set (ledgerPanelChatIDs s)) (panelChats s)
                 (panelChats_c cd, seen)))"
  by (simp add: processCommit_def Let_def split_beta)

lemma processCommit_seen:
  "snd (projr (processCommit s cur curP seen cd hash)) = seen \<union> (visibleIn s \<inter> cur)"
  by (simp add: processCommit_reads processPanelChats_seen visibleIn_def)

lemma processCommit_ids:
  "messageIdsIn (panelChats_c (fst (projr (processCommit s cur curP seen cd hash))))
     = messageIdsIn (panelChats_c cd) \<union> ((visibleIn s \<inter> cur) - seen)"
  by (simp add: processCommit_reads processPanelChats_ids visibleIn_def)

lemma processCommit_hash:
  "commitHash (fst (projr (processCommit s cur curP seen cd hash))) = commitHash cd"
  by (simp add: processCommit_reads)

subsection \<open>The walk over the commits\<close>

lemma map_of_mapSet: "map_of (mapSet k v mp) = (map_of mp)(k \<mapsto> v)"
  by (induction mp) (auto simp: fun_eq_iff)

lemma set_mapSet: "set (mapSet k v mp) \<subseteq> insert (k, v) (set mp)"
  by (induction mp) auto

lemma fst_set_mapSet: "fst ` set (mapSet k v mp) = insert k (fst ` set mp)"
  by (induction mp) auto

lemma distinct_mapSet: "distinct (map fst mp) \<Longrightarrow> distinct (map fst (mapSet k v mp))"
proof (induction mp)
  case Nil
  then show ?case by simp
next
  case (Cons p mp)
  then show ?case using fst_set_mapSet [of k v mp] by (auto simp: image_iff)
qed

lemma keyed_mapSet:
  assumes "keyed mp" "commitHash v = k"
  shows "keyed (mapSet k v mp)"
  using assms set_mapSet [of k v mp] unfolding keyed_def
  by (auto simp: distinct_mapSet)

lemma keyed_map_of:
  assumes "keyed mp"
  shows "(k, cd) \<in> set mp \<longleftrightarrow> map_of mp k = Some cd"
  using assms unfolding keyed_def by (auto dest: map_of_SomeD)

lemma visitCommit_skip:
  "snapshotAt h line = None \<Longrightarrow> visitCommit h cur curP line st = Inr st"
  by (cases st)
     (auto simp: visitCommit_def snapshotAt_def contentAt_def Let_def
           split: option.splits if_splits)

lemma visitCommit_process:
  assumes "snapshotAt h line = Some s"
  shows "visitCommit h cur curP line (mp, seen) =
     Inr (mapSet (commitHashOf line)
            (fst (projr (processCommit s cur curP seen
                    (case map_of mp (commitHashOf line) of
                       Some cd \<Rightarrow> cd | None \<Rightarrow> freshCommit line)
                    (commitHashOf line)))) mp,
          snd (projr (processCommit s cur curP seen
                 (case map_of mp (commitHashOf line) of
                    Some cd \<Rightarrow> cd | None \<Rightarrow> freshCommit line)
                 (commitHashOf line))))"
  using assms
  by (auto simp: visitCommit_def snapshotAt_def contentAt_def Let_def split_beta freshCommit_def
           processCommit_reads split: option.splits if_splits)

lemma visitCommit_Inr: "\<exists>mp1 seen1. visitCommit h cur curP line (mp, seen) = Inr (mp1, seen1)"
proof (cases "snapshotAt h line")
  case None
  then show ?thesis by (simp add: visitCommit_skip)
next
  case (Some s)
  then show ?thesis by (simp add: visitCommit_process)
qed

lemma visitCommit_seen:
  "snd (projr (visitCommit h cur curP line (mp, seen))) = seen \<union> (shownAt h line \<inter> cur)"
proof (cases "snapshotAt h line")
  case None
  then show ?thesis by (simp add: visitCommit_skip shownAt_def)
next
  case (Some s)
  then show ?thesis by (simp add: visitCommit_process processCommit_seen shownAt_def)
qed

lemma visitCommit_ids:
  "idsAt (fst (projr (visitCommit h cur curP line (mp, seen)))) k =
     idsAt mp k \<union> (if k = commitHashOf line then (shownAt h line \<inter> cur) - seen else {})"
proof (cases "snapshotAt h line")
  case None
  then show ?thesis by (simp add: visitCommit_skip shownAt_def)
next
  case (Some s)
  show ?thesis
    by (auto simp: visitCommit_process [OF Some] idsAt_def map_of_mapSet processCommit_ids
          shownAt_def Some freshCommit_def split: option.splits)
qed

lemma visitCommit_keyed:
  assumes "keyed mp"
  shows "keyed (fst (projr (visitCommit h cur curP line (mp, seen))))"
proof (cases "snapshotAt h line")
  case None
  then show ?thesis using assms by (simp add: visitCommit_skip)
next
  case (Some s)
  have "commitHash (case map_of mp (commitHashOf line) of Some cd \<Rightarrow> cd | None \<Rightarrow> freshCommit line)
        = commitHashOf line"
    using assms keyed_map_of [OF assms] unfolding keyed_def
    by (auto simp: freshCommit_def split: option.splits)
  then show ?thesis
    using assms by (simp add: visitCommit_process [OF Some] keyed_mapSet processCommit_hash)
qed

lemma walkCommits_Cons:
  "walkCommits h cur curP (l # ls) st =
     walkCommits h cur curP ls (projr (visitCommit h cur curP l st))"
proof -
  obtain mp seen where st: "st = (mp, seen)" by (cases st)
  obtain mp1 seen1 where "visitCommit h cur curP l (mp, seen) = Inr (mp1, seen1)"
    using visitCommit_Inr by blast
  then show ?thesis by (simp add: st)
qed

lemma walkCommits_Inr: "\<exists>mp1 seen1. walkCommits h cur curP ls st = Inr (mp1, seen1)"
proof (induction ls arbitrary: st)
  case Nil
  then show ?case by (cases st) simp
next
  case (Cons l ls)
  then show ?case by (simp only: walkCommits_Cons)
qed

lemma walkCommits_append:
  "walkCommits h cur curP (xs @ ys) st =
     walkCommits h cur curP ys (projr (walkCommits h cur curP xs st))"
proof (induction xs arbitrary: st)
  case Nil
  then show ?case by simp
next
  case (Cons x xs)
  then show ?case by (simp only: append_Cons walkCommits_Cons)
qed

lemma walkCommits_keyed:
  "keyed (fst st) \<Longrightarrow> keyed (fst (projr (walkCommits h cur curP ls st)))"
proof (induction ls arbitrary: st)
  case Nil
  then show ?case by simp
next
  case (Cons l ls)
  obtain mp seen where st: "st = (mp, seen)" by (cases st)
  have "keyed (fst (projr (visitCommit h cur curP l st)))"
    using Cons.prems visitCommit_keyed [of mp h cur curP l seen] by (simp add: st)
  then show ?case by (simp only: walkCommits_Cons Cons.IH)
qed

lemma walkCommits_seen:
  "snd (projr (walkCommits h cur curP ls (mp, seen)))
     = seen \<union> ((\<Union>line\<in>set ls. shownAt h line) \<inter> cur)"
proof (induction ls arbitrary: mp seen)
  case Nil
  then show ?case by simp
next
  case (Cons l ls)
  obtain mp1 seen1 where v: "visitCommit h cur curP l (mp, seen) = Inr (mp1, seen1)"
    using visitCommit_Inr by blast
  have "seen1 = seen \<union> (shownAt h l \<inter> cur)"
    using visitCommit_seen [of h cur curP l mp seen] v by simp
  then show ?case by (simp add: v Cons.IH) auto
qed

lemma walkCommits_unchanged:
  assumes "m \<in> seen \<or> m \<notin> cur \<or> (\<forall>line\<in>set ls. m \<notin> shownAt h line)"
  shows "m \<in> idsAt (fst (projr (walkCommits h cur curP ls (mp, seen)))) k \<longleftrightarrow> m \<in> idsAt mp k"
  using assms
proof (induction ls arbitrary: mp seen)
  case Nil
  then show ?case by simp
next
  case (Cons l ls)
  obtain mp1 seen1 where v: "visitCommit h cur curP l (mp, seen) = Inr (mp1, seen1)"
    using visitCommit_Inr by blast
  have s1: "seen1 = seen \<union> (shownAt h l \<inter> cur)"
    using visitCommit_seen [of h cur curP l mp seen] v by simp
  have i1: "idsAt mp1 k = idsAt mp k \<union> (if k = commitHashOf l then (shownAt h l \<inter> cur) - seen else {})"
    using visitCommit_ids [of h cur curP l mp seen k] v by simp
  have keep: "m \<in> seen1 \<or> m \<notin> cur \<or> (\<forall>line\<in>set ls. m \<notin> shownAt h line)"
    using Cons.prems s1 by auto
  have "m \<in> idsAt mp1 k \<longleftrightarrow> m \<in> idsAt mp k"
    using Cons.prems i1 by auto
  then show ?case using Cons.IH [OF keep, of mp1] by (simp add: v)
qed

lemma walkCommits_within:
  assumes "\<forall>k. idsAt mp k \<subseteq> cur"
  shows "idsAt (fst (projr (walkCommits h cur curP ls (mp, seen)))) k \<subseteq> cur"
proof
  fix m assume m: "m \<in> idsAt (fst (projr (walkCommits h cur curP ls (mp, seen)))) k"
  show "m \<in> cur"
  proof (rule ccontr)
    assume "m \<notin> cur"
    then have "m \<in> idsAt mp k" using walkCommits_unchanged [of m seen cur ls h curP mp k] m by simp
    then show False using assms \<open>m \<notin> cur\<close> by auto
  qed
qed

subsection \<open>The result of getGitHistory\<close>

lemma uncommittedPanelChats_Inr: "\<exists>chats. uncommittedPanelChats h cur = Inr chats"
  by (simp add: uncommittedPanelChats_def Let_def)

lemma getGitHistory_result:
  assumes "existsSync h" "gitLog h = Some d" "gitStatus h = Some status"
  shows "getGitHistory h fp =
     Inr \<lparr>commits =
            filter (\<lambda>commit. list_ex (\<lambda>pc. length (messages pc) > 0) (panelChats_c commit))
              (map snd (fst (projr (walkCommits h (activeMessageIds (parsedCurrent h))
                               (activePanelChatIds (parsedCurrent h)) (logLinesOf d) ([], {}))))),
          uncommitted =
            (if fp \<in> set (modified status) \<or> fp \<in> set (not_added status) \<or>
                fp \<in> set (created status)
             then (if length (projr (uncommittedPanelChats h (activeMessageIds (parsedCurrent h)))) > 0
                   then Some \<lparr>panelChats_u =
                           projr (uncommittedPanelChats h (activeMessageIds (parsedCurrent h)))\<rparr>
                   else None)
             else None)\<rparr>"
proof -
  let ?cur = "activeMessageIds (parsedCurrent h)"
  obtain mp seen where w: "walkCommits h ?cur (activePanelChatIds (parsedCurrent h))
                             (logLinesOf d) ([], {}) = Inr (mp, seen)"
    using walkCommits_Inr by blast
  obtain chats where u: "uncommittedPanelChats h ?cur = Inr chats"
    using uncommittedPanelChats_Inr by blast
  show ?thesis
    using assms w u
    by (simp add: getGitHistory_def Let_def activeMessageIds_def activePanelChatIds_def)
qed

lemma getGitHistory_status_fails:
  assumes "existsSync h" "gitLog h = Some d" "gitStatus h = None"
  shows "getGitHistory h fp = Inl GitStatusFailed"
proof -
  obtain mp seen where w: "walkCommits h (activeMessageIds (parsedCurrent h))
                             (activePanelChatIds (parsedCurrent h)) (logLinesOf d) ([], {})
                           = Inr (mp, seen)"
    using walkCommits_Inr by blast
  show ?thesis
    using assms w
    by (simp add: getGitHistory_def Let_def activeMessageIds_def activePanelChatIds_def)
qed

lemma getGitHistory_throws:
  "(\<exists>e. getGitHistory h fp = Inl e) \<longleftrightarrow> (\<not> existsSync h \<or> gitLog h = None \<or> gitStatus h = None)"
proof (cases "existsSync h")
  case False
  then show ?thesis by (simp add: getGitHistory_def)
next
  case e: True
  show ?thesis
  proof (cases "gitLog h")
    case None
    then show ?thesis using e by (simp add: getGitHistory_def Let_def)
  next
    case (Some d)
    show ?thesis
    proof (cases "gitStatus h")
      case None
      then show ?thesis using e Some getGitHistory_status_fails [of h d fp] by simp
    next
      case (Some status)
      then show ?thesis using e \<open>gitLog h = Some d\<close> getGitHistory_result [of h d status fp]
        by simp
    qed
  qed
qed

lemma getGitHistory_Inr:
  assumes "getGitHistory h fp = Inr r"
  obtains logData where "gitLog h = Some logData"
    and "commits r =
           filter (\<lambda>commit. list_ex (\<lambda>pc. length (messages pc) > 0) (panelChats_c commit))
             (map snd (fst (projr (walkCommits h (activeMessageIds (parsedCurrent h))
                              (activePanelChatIds (parsedCurrent h)) (logLinesOf logData) ([], {})))))"
proof -
  have ok: "existsSync h \<and> gitLog h \<noteq> None \<and> gitStatus h \<noteq> None"
    using assms getGitHistory_throws [of h fp] by auto
  then obtain d status where d: "gitLog h = Some d" and st: "gitStatus h = Some status" by auto
  have "r = \<lparr>commits =
            filter (\<lambda>commit. list_ex (\<lambda>pc. length (messages pc) > 0) (panelChats_c commit))
              (map snd (fst (projr (walkCommits h (activeMessageIds (parsedCurrent h))
                               (activePanelChatIds (parsedCurrent h)) (logLinesOf d) ([], {}))))),
          uncommitted =
            (if fp \<in> set (modified status) \<or> fp \<in> set (not_added status) \<or>
                fp \<in> set (created status)
             then (if length (projr (uncommittedPanelChats h (activeMessageIds (parsedCurrent h)))) > 0
                   then Some \<lparr>panelChats_u =
                           projr (uncommittedPanelChats h (activeMessageIds (parsedCurrent h)))\<rparr>
                   else None)
             else None)\<rparr>"
    using assms getGitHistory_result [of h d status fp] ok d st by simp
  then have "commits r =
           filter (\<lambda>commit. list_ex (\<lambda>pc. length (messages pc) > 0) (panelChats_c commit))
             (map snd (fst (projr (walkCommits h (activeMessageIds (parsedCurrent h))
                              (activePanelChatIds (parsedCurrent h)) (logLinesOf d) ([], {})))))"
    by (metis GitHistoryData.select_convs(1))
  then show thesis using that [OF d] by blast
qed

lemma nonempty_chat_of_id:
  assumes "m \<in> messageIdsIn chats"
  shows "list_ex (\<lambda>pc. length (messages pc) > 0) chats"
proof -
  obtain pc where "pc \<in> set chats" "m \<in> id_message ` set (messages pc)"
    using assms messageIdsIn_iff by blast
  then show ?thesis unfolding list_ex_iff by (intro bexI [of _ pc]) auto
qed

lemma nonempty_chat_iff:
  "list_ex (\<lambda>pc. length (messages pc) > 0) chats \<longleftrightarrow> messageIdsIn chats \<noteq> {}"
proof
  assume "list_ex (\<lambda>pc. length (messages pc) > 0) chats"
  then obtain pc where pc: "pc \<in> set chats" "messages pc \<noteq> []"
    unfolding list_ex_iff by auto
  then obtain x where "x \<in> set (messages pc)" by (cases "messages pc") auto
  then have "id_message x \<in> messageIdsIn chats" using pc(1) messageIdsIn_iff by blast
  then show "messageIdsIn chats \<noteq> {}" by blast
next
  assume "messageIdsIn chats \<noteq> {}"
  then obtain m where "m \<in> messageIdsIn chats" by blast
  then show "list_ex (\<lambda>pc. length (messages pc) > 0) chats" by (rule nonempty_chat_of_id)
qed

lemma commits_in:
  assumes "keyed mp" "m \<in> idsAt mp k"
  shows "\<exists>cd\<in>set (filter (\<lambda>commit. list_ex (\<lambda>pc. length (messages pc) > 0) (panelChats_c commit))
                    (map snd mp)).
            commitHash cd = k \<and> m \<in> messageIdsIn (panelChats_c cd)"
proof -
  obtain cd where cd: "map_of mp k = Some cd" "m \<in> messageIdsIn (panelChats_c cd)"
    using assms(2) by (auto simp: idsAt_def split: option.splits)
  have mem: "(k, cd) \<in> set mp" using cd(1) by (rule map_of_SomeD)
  then have "commitHash cd = k" using assms(1) unfolding keyed_def by auto
  moreover have "cd \<in> set (map snd mp)" using mem by force
  ultimately show ?thesis using cd(2) nonempty_chat_of_id [OF cd(2)] by auto
qed

lemma commits_out:
  assumes "keyed mp" "cd \<in> set (map snd mp)"
  shows "messageIdsIn (panelChats_c cd) = idsAt mp (commitHash cd)"
proof -
  obtain k where mem: "(k, cd) \<in> set mp" using assms(2) by auto
  then have k: "commitHash cd = k" using assms(1) unfolding keyed_def by auto
  have "map_of mp k = Some cd" using keyed_map_of [OF assms(1)] mem by simp
  then show ?thesis by (simp add: idsAt_def k)
qed

lemma commits_hashes:
  assumes "keyed mp"
  shows "commitHash ` set (filter (\<lambda>commit. list_ex (\<lambda>pc. length (messages pc) > 0)
                                              (panelChats_c commit)) (map snd mp))
         = {k. idsAt mp k \<noteq> {}}"
proof (intro set_eqI iffI)
  fix k
  assume "k \<in> commitHash ` set (filter (\<lambda>commit. list_ex (\<lambda>pc. length (messages pc) > 0)
                                              (panelChats_c commit)) (map snd mp))"
  then obtain cd where cd: "cd \<in> set (map snd mp)" "commitHash cd = k"
    and ne: "list_ex (\<lambda>pc. length (messages pc) > 0) (panelChats_c cd)"
    by auto
  have "idsAt mp (commitHash cd) \<noteq> {}"
    using commits_out [OF assms cd(1)] ne nonempty_chat_iff by simp
  then show "k \<in> {k. idsAt mp k \<noteq> {}}" using cd(2) by simp
next
  fix k
  assume "k \<in> {k. idsAt mp k \<noteq> {}}"
  then obtain m where "m \<in> idsAt mp k" by blast
  then obtain cd where
    "cd \<in> set (filter (\<lambda>commit. list_ex (\<lambda>pc. length (messages pc) > 0) (panelChats_c commit))
                 (map snd mp))" "commitHash cd = k"
    using commits_in [OF assms] by blast
  then show "k \<in> commitHash ` set (filter (\<lambda>commit. list_ex (\<lambda>pc. length (messages pc) > 0)
                                              (panelChats_c commit)) (map snd mp))"
    by blast
qed

lemma keyed_Nil: "keyed []"
  by (simp add: keyed_def)

lemma idsAt_Nil [simp]: "idsAt [] k = {}"
  by (simp add: idsAt_def)

subsection \<open>Which commit a message goes to\<close>

lemma walkCommits_first_shown:
  assumes i: "i < length ls"
      and act: "m \<in> cur"
      and shown: "m \<in> shownAt h (ls ! i)"
      and first: "\<forall>k<i. m \<notin> shownAt h (ls ! k)"
  shows "m \<in> idsAt (fst (projr (walkCommits h cur curP ls ([], {})))) k
         \<longleftrightarrow> k = commitHashOf (ls ! i)"
proof -
  let ?l = "ls ! i"
  let ?walk = "walkCommits h cur curP"
  have split: "ls = take i ls @ ?l # drop (Suc i) ls"
    using i by (simp add: id_take_nth_drop)
  obtain mp1 seen1 where w1: "?walk (take i ls) ([], {}) = Inr (mp1, seen1)"
    using walkCommits_Inr by blast
  obtain mp2 seen2 where w2: "visitCommit h cur curP ?l (mp1, seen1) = Inr (mp2, seen2)"
    using visitCommit_Inr by blast
  obtain mp3 seen3 where w3: "?walk (drop (Suc i) ls) (mp2, seen2) = Inr (mp3, seen3)"
    using walkCommits_Inr by blast
  have whole: "?walk ls ([], {}) = Inr (mp3, seen3)"
    by (subst split) (simp add: walkCommits_append w1 w2 w3)
  have pre: "\<forall>line\<in>set (take i ls). m \<notin> shownAt h line"
  proof
    fix line assume "line \<in> set (take i ls)"
    then obtain j where "j < i" "line = ls ! j"
      using i by (auto simp: in_set_conv_nth)
    then show "m \<notin> shownAt h line" using first by simp
  qed
  have m1: "\<And>k. m \<notin> idsAt mp1 k"
    using walkCommits_unchanged [of m "{}" cur "take i ls" h curP "[]"] pre w1 by simp
  have s1: "m \<notin> seen1"
    using walkCommits_seen [of h cur curP "take i ls" "[]" "{}"] pre w1 by auto
  have m2: "\<And>k. m \<in> idsAt mp2 k \<longleftrightarrow> k = commitHashOf ?l"
    using visitCommit_ids [of h cur curP ?l mp1 seen1] w2 m1 s1 shown act by auto
  have s2: "m \<in> seen2"
    using visitCommit_seen [of h cur curP ?l mp1 seen1] w2 shown act by auto
  have m3: "m \<in> idsAt mp3 k \<longleftrightarrow> k = commitHashOf ?l"
    using walkCommits_unchanged [of m seen2 cur "drop (Suc i) ls" h curP mp2] s2 w3 m2
    by simp
  show ?thesis using m3 whole by simp
qed

lemma take_all_nth:
  assumes "j \<le> length ls"
  shows "(\<forall>line\<in>set (take j ls). P line) \<longleftrightarrow> (\<forall>k<j. P (ls ! k))"
proof
  assume a: "\<forall>line\<in>set (take j ls). P line"
  show "\<forall>k<j. P (ls ! k)"
  proof (intro allI impI)
    fix k assume k: "k < j"
    then have "take j ls ! k \<in> set (take j ls)" using assms by (intro nth_mem) simp
    then show "P (ls ! k)" using a k by simp
  qed
next
  assume "\<forall>k<j. P (ls ! k)"
  then show "\<forall>line\<in>set (take j ls). P line" by (auto simp: in_set_conv_nth)
qed

lemma walkCommits_idsAt:
  "idsAt (fst (projr (walkCommits h cur curP ls ([], {})))) k
     = (\<Union>i\<in>{i. i < length ls \<and> commitHashOf (ls ! i) = k}. attributedAt h cur ls i)"
proof (rule set_eqI)
  fix m
  show "m \<in> idsAt (fst (projr (walkCommits h cur curP ls ([], {})))) k
        \<longleftrightarrow> m \<in> (\<Union>i\<in>{i. i < length ls \<and> commitHashOf (ls ! i) = k}. attributedAt h cur ls i)"
  proof (cases "m \<in> cur \<and> (\<exists>line\<in>set ls. m \<in> shownAt h line)")
    case False
    then have "m \<notin> cur \<or> (\<forall>line\<in>set ls. m \<notin> shownAt h line)" by blast
    then have L: "m \<notin> idsAt (fst (projr (walkCommits h cur curP ls ([], {})))) k"
      using walkCommits_unchanged [of m "{}" cur ls h curP "[]" k] by simp
    have R: "\<And>i. i < length ls \<Longrightarrow> m \<notin> attributedAt h cur ls i"
      using False by (auto simp: attributedAt_def)
    show ?thesis using L R by blast
  next
    case True
    then have ex: "\<exists>i. i < length ls \<and> m \<in> shownAt h (ls ! i)"
      by (auto simp: in_set_conv_nth)
    define i where "i = (LEAST i. i < length ls \<and> m \<in> shownAt h (ls ! i))"
    have i: "i < length ls \<and> m \<in> shownAt h (ls ! i)"
      unfolding i_def using ex by (rule LeastI_ex)
    have first: "\<forall>j<i. m \<notin> shownAt h (ls ! j)"
    proof (intro allI impI)
      fix j assume j: "j < i"
      then have "\<not> (j < length ls \<and> m \<in> shownAt h (ls ! j))"
        unfolding i_def by (rule not_less_Least)
      then show "m \<notin> shownAt h (ls ! j)" using j i by simp
    qed
    have L: "m \<in> idsAt (fst (projr (walkCommits h cur curP ls ([], {})))) k
             \<longleftrightarrow> k = commitHashOf (ls ! i)"
      using walkCommits_first_shown [of i ls m cur h curP k] i True first by blast
    have att: "m \<in> attributedAt h cur ls j \<longleftrightarrow> j = i" if j: "j < length ls" for j
    proof
      assume a: "m \<in> attributedAt h cur ls j"
      then have sj: "m \<in> shownAt h (ls ! j)" and fj: "\<forall>n<j. m \<notin> shownAt h (ls ! n)"
        using j by (auto simp: attributedAt_def take_all_nth)
      show "j = i"
      proof (rule ccontr)
        assume "j \<noteq> i"
        then consider "j < i" | "i < j" by linarith
        then show False
        proof cases
          case 1
          then show False using first sj by blast
        next
          case 2
          then show False using fj i by blast
        qed
      qed
    next
      assume "j = i"
      then show "m \<in> attributedAt h cur ls j"
        using i True first by (simp add: attributedAt_def take_all_nth)
    qed
    show ?thesis using L att i by auto
  qed
qed

lemma returned_hashes:
  assumes res: "getGitHistory h fp = Inr r" and log: "gitLog h = Some logData"
  shows "commitHash ` set (commits r) =
     {commitHashOf (logLinesOf logData ! i) | i.
        i < length (logLinesOf logData) \<and>
        attributedAt h (activeMessageIds (parsedCurrent h)) (logLinesOf logData) i \<noteq> {}}"
proof -
  let ?cur = "activeMessageIds (parsedCurrent h)"
  let ?curP = "activePanelChatIds (parsedCurrent h)"
  let ?ls = "logLinesOf logData"
  let ?mp = "fst (projr (walkCommits h ?cur ?curP ?ls ([], {})))"
  obtain d where d: "gitLog h = Some d"
    and cs: "commits r =
           filter (\<lambda>commit. list_ex (\<lambda>pc. length (messages pc) > 0) (panelChats_c commit))
             (map snd (fst (projr (walkCommits h ?cur ?curP (logLinesOf d) ([], {})))))"
    using getGitHistory_Inr [OF res] by blast
  have "d = logData" using d log by simp
  then have cs': "commits r =
           filter (\<lambda>commit. list_ex (\<lambda>pc. length (messages pc) > 0) (panelChats_c commit))
             (map snd ?mp)"
    using cs by simp
  have k: "keyed ?mp"
    using walkCommits_keyed [of "([], {})" h ?cur ?curP ?ls] by (simp add: keyed_Nil)
  have "commitHash ` set (commits r) = {k. idsAt ?mp k \<noteq> {}}"
    unfolding cs' by (rule commits_hashes [OF k])
  also have "\<dots> = {commitHashOf (?ls ! i) | i. i < length ?ls \<and> attributedAt h ?cur ?ls i \<noteq> {}}"
    unfolding walkCommits_idsAt by auto
  finally show ?thesis .
qed

lemma returned_first_shown:
  assumes res: "getGitHistory h filePath = Inr r"
      and log: "gitLog h = Some logData"
      and i: "i < length (logLinesOf logData)"
      and act: "m \<in> activeMessageIds (parsedCurrent h)"
      and shown: "m \<in> shownAt h (logLinesOf logData ! i)"
      and first: "\<forall>k<i. m \<notin> shownAt h (logLinesOf logData ! k)"
  shows "(\<exists>cd\<in>set (commits r).
            commitHash cd = commitHashOf (logLinesOf logData ! i) \<and>
            m \<in> messageIdsIn (panelChats_c cd))
       \<and> (\<forall>cd\<in>set (commits r).
            commitHash cd \<noteq> commitHashOf (logLinesOf logData ! i) \<longrightarrow>
            m \<notin> messageIdsIn (panelChats_c cd))"
proof -
  let ?ls = "logLinesOf logData"
  let ?cur = "activeMessageIds (parsedCurrent h)"
  let ?curP = "activePanelChatIds (parsedCurrent h)"
  let ?l = "?ls ! i"
  let ?mp = "fst (projr (walkCommits h ?cur ?curP ?ls ([], {})))"
  have m3: "\<And>k. m \<in> idsAt ?mp k \<longleftrightarrow> k = commitHashOf ?l"
    using walkCommits_first_shown [OF i act shown first] .
  have keyed3: "keyed ?mp"
    using walkCommits_keyed [of "([], {})" h ?cur ?curP ?ls] by (simp add: keyed_Nil)
  obtain d where d: "gitLog h = Some d"
    and cs: "commits r =
           filter (\<lambda>commit. list_ex (\<lambda>pc. length (messages pc) > 0) (panelChats_c commit))
             (map snd (fst (projr (walkCommits h ?cur ?curP (logLinesOf d) ([], {})))))"
    using getGitHistory_Inr [OF res] by blast
  have "d = logData" using d log by simp
  then have cs': "commits r =
           filter (\<lambda>commit. list_ex (\<lambda>pc. length (messages pc) > 0) (panelChats_c commit))
             (map snd ?mp)"
    using cs by simp
  have A: "\<exists>cd\<in>set (commits r). commitHash cd = commitHashOf ?l \<and> m \<in> messageIdsIn (panelChats_c cd)"
    unfolding cs' using commits_in [OF keyed3] m3 by blast
  have B: "\<forall>cd\<in>set (commits r). commitHash cd \<noteq> commitHashOf ?l \<longrightarrow> m \<notin> messageIdsIn (panelChats_c cd)"
  proof (intro ballI impI)
    fix cd assume cd: "cd \<in> set (commits r)" and ne: "commitHash cd \<noteq> commitHashOf ?l"
    have "cd \<in> set (map snd ?mp)" using cd unfolding cs' by simp
    then have "messageIdsIn (panelChats_c cd) = idsAt ?mp (commitHash cd)"
      using commits_out [OF keyed3] by simp
    then show "m \<notin> messageIdsIn (panelChats_c cd)" using m3 ne by simp
  qed
  show ?thesis using A B by blast
qed

text \<open>
  Claim C1, as amended. Let a message id be active in the current snapshot, and let line
  \<open>i\<close> of the log be the first whose commit the walk processes (it is no deletion
  commit and its content is read, parsed and validated) with the message in a chat that
  the commit's own ledger does not mark deleted. Then the returned list has a commit data
  with the hash of that line holding the message, and no returned commit data with another
  hash holds it.
\<close>

theorem earliest_attribution:
  assumes res: "getGitHistory h filePath = Inr r"
      and log: "gitLog h = Some logData"
      and i: "i < length (logLinesOf logData)"
      and act: "m \<in> activeMessageIds (parsedCurrent h)"
      and shown: "m \<in> shownAt h (logLinesOf logData ! i)"
      and first: "\<forall>k<i. m \<notin> shownAt h (logLinesOf logData ! k)"
  shows "(\<exists>cd\<in>set (commits r).
            commitHash cd = commitHashOf (logLinesOf logData ! i) \<and>
            m \<in> messageIdsIn (panelChats_c cd))
       \<and> (\<forall>cd\<in>set (commits r).
            commitHash cd \<noteq> commitHashOf (logLinesOf logData ! i) \<longrightarrow>
            m \<notin> messageIdsIn (panelChats_c cd))"
  using assms by (rule returned_first_shown)

subsection \<open>Deleted messages and the failure boundary\<close>

lemma ledger_not_current:
  "m \<in> set (ledgerMessageIDs current) \<Longrightarrow> m \<notin> activeMessageIds current"
  by (auto simp: activeMessageIds_def currentMessageIds_def)

lemma commits_within_current:
  assumes "getGitHistory h fp = Inr r" "cd \<in> set (commits r)"
  shows "messageIdsIn (panelChats_c cd) \<subseteq> activeMessageIds (parsedCurrent h)"
proof -
  let ?cur = "activeMessageIds (parsedCurrent h)"
  let ?curP = "activePanelChatIds (parsedCurrent h)"
  obtain d where cs: "commits r =
           filter (\<lambda>commit. list_ex (\<lambda>pc. length (messages pc) > 0) (panelChats_c commit))
             (map snd (fst (projr (walkCommits h ?cur ?curP (logLinesOf d) ([], {})))))"
    using getGitHistory_Inr [OF assms(1)] by blast
  let ?mp = "fst (projr (walkCommits h ?cur ?curP (logLinesOf d) ([], {})))"
  have k: "keyed ?mp" using walkCommits_keyed [of "([], {})"] by (simp add: keyed_Nil)
  have "cd \<in> set (map snd ?mp)" using assms(2) unfolding cs by simp
  then have "messageIdsIn (panelChats_c cd) = idsAt ?mp (commitHash cd)"
    using commits_out [OF k] by simp
  then show ?thesis
    using walkCommits_within [of "[]" ?cur h ?curP "logLinesOf d" "{}" "commitHash cd"] by simp
qed

lemma uncommitted_within_current:
  "messageIdsIn (projr (uncommittedPanelChats h cur)) \<subseteq> cur"
  by (auto simp: uncommittedPanelChats_def Let_def messageIdsIn_iff)

lemma getGitHistory_uncommitted:
  assumes "getGitHistory h fp = Inr r" "uncommitted r = Some u"
  shows "messageIdsIn (panelChats_u u) \<subseteq> activeMessageIds (parsedCurrent h)"
proof -
  have ok: "existsSync h \<and> gitLog h \<noteq> None \<and> gitStatus h \<noteq> None"
    using assms(1) getGitHistory_throws [of h fp] by auto
  then obtain d status where d: "gitLog h = Some d" and st: "gitStatus h = Some status" by auto
  have "panelChats_u u = projr (uncommittedPanelChats h (activeMessageIds (parsedCurrent h)))"
    using assms getGitHistory_result [of h d status fp] ok d st
    by (auto split: if_splits)
  then show ?thesis
    using uncommitted_within_current [of h "activeMessageIds (parsedCurrent h)"] by simp
qed

lemma deletion_monotonicity_ext:
  assumes "getGitHistory h fp = Inr r" "m \<in> set (ledgerMessageIDs (parsedCurrent h))"
  shows "(\<forall>cd\<in>set (commits r). m \<notin> messageIdsIn (panelChats_c cd))
       \<and> (\<forall>u. uncommitted r = Some u \<longrightarrow> m \<notin> messageIdsIn (panelChats_u u))"
  using ledger_not_current [OF assms(2)] commits_within_current [OF assms(1)]
        getGitHistory_uncommitted [OF assms(1)]
  by blast

lemma snapshotAt_gitLog [simp]: "snapshotAt (h\<lparr>gitLog := x\<rparr>) line = snapshotAt h line"
  by (simp add: snapshotAt_def contentAt_def cong: option.case_cong)

lemma visitCommit_gitLog [simp]:
  "visitCommit (h\<lparr>gitLog := x\<rparr>) cur curP line st = visitCommit h cur curP line st"
proof (cases "snapshotAt h line")
  case None
  then show ?thesis by (simp add: visitCommit_skip)
next
  case (Some s)
  then show ?thesis by (cases st) (simp add: visitCommit_process)
qed

lemma walkCommits_gitLog [simp]:
  "walkCommits (h\<lparr>gitLog := x\<rparr>) cur curP ls st = walkCommits h cur curP ls st"
  by (induction ls arbitrary: st) (simp_all split: sum.splits)

lemma parsedCurrent_gitLog [simp]: "parsedCurrent (h\<lparr>gitLog := x\<rparr>) = parsedCurrent h"
  by (simp add: parsedCurrent_def cong: option.case_cong)

lemma uncommittedPanelChats_gitLog [simp]:
  "uncommittedPanelChats (h\<lparr>gitLog := x\<rparr>) cur = uncommittedPanelChats h cur"
  by (simp add: uncommittedPanelChats_def)

lemma walkCommits_skip:
  assumes "snapshotAt h l = None"
  shows "walkCommits h cur curP (ls1 @ l # ls2) st = walkCommits h cur curP (ls1 @ ls2) st"
  by (simp add: walkCommits_append walkCommits_Cons visitCommit_skip [OF assms]
        del: walkCommits.simps)

lemma contentAt_None_snapshotAt: "contentAt h l = None \<Longrightarrow> snapshotAt h l = None"
  by (simp add: snapshotAt_def)

lemma getGitHistory_skip:
  assumes "gitLog h = Some d" "logLinesOf d = ls1 @ l # ls2" "logLinesOf d' = ls1 @ ls2"
      and "contentAt h l = None"
  shows "getGitHistory (h\<lparr>gitLog := Some d'\<rparr>) fp = getGitHistory h fp"
proof (cases "existsSync h")
  case False
  then show ?thesis by (simp add: getGitHistory_def)
next
  case e: True
  show ?thesis
  proof (cases "gitStatus h")
    case None
    then show ?thesis
      using e assms(1) getGitHistory_status_fails [of h d fp]
        getGitHistory_status_fails [of "h\<lparr>gitLog := Some d'\<rparr>" d' fp]
      by simp
  next
    case (Some status)
    have "getGitHistory (h\<lparr>gitLog := Some d'\<rparr>) fp = getGitHistory h fp"
      using e Some assms(1)
        getGitHistory_result [of "h\<lparr>gitLog := Some d'\<rparr>" d' status fp]
        getGitHistory_result [of h d status fp]
        walkCommits_skip [OF contentAt_None_snapshotAt [OF assms(4)], of _ _ ls1 ls2]
      by (simp add: assms(2,3))
    then show ?thesis .
  qed
qed

lemma contentAt_None_iff:
  "contentAt h line = None \<longleftrightarrow>
     (gitShow h (commitHashOf line) = None \<or>
      (\<exists>fileContent. gitShow h (commitHashOf line) = Some fileContent \<and>
         (JSON_parse h fileContent = None \<or>
          (\<exists>parsed. JSON_parse h fileContent = Some parsed \<and> \<not> isStashedState h parsed))))"
  by (auto simp: contentAt_def split: option.splits)

text \<open>
  Claim C7, as amended. \<open>getGitHistory\<close> throws exactly when the tracked file is missing
  at entry, when the commit list cannot be retrieved, or when \<open>git status\<close> fails after
  the walk. A line of the log whose file content cannot be read, parsed or validated
  changes nothing: the result is the result for the log without that line. The returned
  list holds a commit data for exactly the lines of the log to which the walk attributes
  a message, the lines that are the first to show some active message; every message so
  attributed is in the commit data returned for its line.
\<close>

theorem walk_failure_boundary:
  "((\<exists>e. getGitHistory h filePath = Inl e) \<longleftrightarrow>
      (\<not> existsSync h \<or> gitLog h = None \<or> gitStatus h = None))
   \<and> (\<forall>logData logData' before line after.
        gitLog h = Some logData \<and> logLinesOf logData = before @ line # after \<and>
        logLinesOf logData' = before @ after \<and> contentAt h line = None \<longrightarrow>
        getGitHistory (h\<lparr>gitLog := Some logData'\<rparr>) filePath = getGitHistory h filePath)
   \<and> (\<forall>r logData.
        getGitHistory h filePath = Inr r \<and> gitLog h = Some logData \<longrightarrow>
        commitHash ` set (commits r) =
          {commitHashOf (logLinesOf logData ! i) | i.
             i < length (logLinesOf logData) \<and>
             attributedAt h (activeMessageIds (parsedCurrent h)) (logLinesOf logData) i \<noteq> {}}
        \<and> (\<forall>i<length (logLinesOf logData).
             \<forall>m\<in>attributedAt h (activeMessageIds (parsedCurrent h)) (logLinesOf logData) i.
               \<exists>cd\<in>set (commits r).
                 commitHash cd = commitHashOf (logLinesOf logData ! i) \<and>
                 m \<in> messageIdsIn (panelChats_c cd)))"
proof (intro conjI allI impI)
  show "(\<exists>e. getGitHistory h filePath = Inl e) \<longleftrightarrow>
      (\<not> existsSync h \<or> gitLog h = None \<or> gitStatus h = None)"
    by (rule getGitHistory_throws)
next
  fix logData logData' before line after
  assume "gitLog h = Some logData \<and> logLinesOf logData = before @ line # after \<and>
        logLinesOf logData' = before @ after \<and> contentAt h line = None"
  then show "getGitHistory (h\<lparr>gitLog := Some logData'\<rparr>) filePath = getGitHistory h filePath"
    using getGitHistory_skip [of h logData before line after logData' filePath] by blast
next
  fix r logData
  assume a: "getGitHistory h filePath = Inr r \<and> gitLog h = Some logData"
  then show "commitHash ` set (commits r) =
          {commitHashOf (logLinesOf logData ! i) | i.
             i < length (logLinesOf logData) \<and>
             attributedAt h (activeMessageIds (parsedCurrent h)) (logLinesOf logData) i \<noteq> {}}"
    using returned_hashes [of h filePath r logData] by blast
next
  fix r logData i
  assume a: "getGitHistory h filePath = Inr r \<and> gitLog h = Some logData"
     and i: "i < length (logLinesOf logData)"
  show "\<forall>m\<in>attributedAt h (activeMessageIds (parsedCurrent h)) (logLinesOf logData) i.
               \<exists>cd\<in>set (commits r).
                 commitHash cd = commitHashOf (logLinesOf logData ! i) \<and>
                 m \<in> messageIdsIn (panelChats_c cd)"
  proof
    fix m
    assume m: "m \<in> attributedAt h (activeMessageIds (parsedCurrent h)) (logLinesOf logData) i"
    then have act: "m \<in> activeMessageIds (parsedCurrent h)"
      and shown: "m \<in> shownAt h (logLinesOf logData ! i)"
      and first: "\<forall>k<i. m \<notin> shownAt h (logLinesOf logData ! k)"
      using i by (auto simp: attributedAt_def take_all_nth)
    show "\<exists>cd\<in>set (commits r).
                 commitHash cd = commitHashOf (logLinesOf logData ! i) \<and>
                 m \<in> messageIdsIn (panelChats_c cd)"
      using returned_first_shown [of h filePath r logData i m] a i act shown first by blast
  qed
qed

subsection \<open>A snapshot without a ledger\<close>

lemma ledgerIds_no_array: "\<not> isArray field \<Longrightarrow> ledgerIds field = []"
  by (cases field) (simp_all add: isArray_def ledgerIds_def)

lemma ledger_absent:
  assumes "deletedChats s = None \<or>
           (\<exists>dc. deletedChats s = Some dc \<and> \<not> isArray (deletedPanelChatIDs dc) \<and>
                 \<not> isArray (deletedMessageIDs dc))"
  shows "ledgerPanelChatIDs s = []" "ledgerMessageIDs s = []"
  using assms
  by (auto simp: ledgerPanelChatIDs_def ledgerMessageIDs_def ledgerIds_no_array)

lemma visibleIn_no_ledger:
  "ledgerPanelChatIDs s = [] \<Longrightarrow> visibleIn s = messageIdsIn (panelChats s)"
  by (simp add: visibleIn_def)

lemma ledger_of_arrays:
  "ledgerPanelChatIDs (s\<lparr>deletedChats := Some \<lparr>deletedMessageIDs = IdArray ms,
                                                deletedPanelChatIDs = IdArray ps\<rparr>\<rparr>) = ps"
  by (simp add: ledgerPanelChatIDs_def ledgerIds_def)

text \<open>
  Claim C8 (schema tolerance). After \<open>ensureDeletedChats\<close> the two reads of the ledger
  succeed and give the ids it lists, none for an absent \<open>deletedChats\<close> and for a field
  that is absent or no array, where the read of the payload as it was parsed can fail.
  So \<open>processCommit\<close> returns for every snapshot: it reads every chat the listed ids do
  not delete and attributes each of their active, unseen messages, as it does for the
  same snapshot with the listed ids written out as two arrays; a snapshot without
  \<open>deletedChats\<close>, or with no array in either field, is processed as the same snapshot
  with two empty arrays, and all its chats are read. The walk processes such a commit
  like any other that is read, parsed and validated.
\<close>

theorem schema_tolerance:
  "panelChatIDsOf (ensureDeletedChats s) = Inr (ledgerPanelChatIDs s)
   \<and> messageIDsOf (ensureDeletedChats s) = Inr (ledgerMessageIDs s)
   \<and> (deletedChats s = None \<longrightarrow>
        panelChatIDsOf s = Inl TypeError \<and> messageIDsOf s = Inl TypeError)
   \<and> (\<exists>commitData1 seen1.
        processCommit s cur curP seen cd hash = Inr (commitData1, seen1) \<and>
        messageIdsIn (panelChats_c commitData1) =
          messageIdsIn (panelChats_c cd) \<union> ((visibleIn s \<inter> cur) - seen) \<and>
        seen1 = seen \<union> (visibleIn s \<inter> cur))
   \<and> processCommit s cur curP seen cd hash =
       processCommit
         (s\<lparr>deletedChats := Some \<lparr>deletedMessageIDs = IdArray (ledgerMessageIDs s),
                                  deletedPanelChatIDs = IdArray (ledgerPanelChatIDs s)\<rparr>\<rparr>)
         cur curP seen cd hash
   \<and> (deletedChats s = None \<or>
        (\<exists>dc. deletedChats s = Some dc \<and> \<not> isArray (deletedPanelChatIDs dc) \<and>
              \<not> isArray (deletedMessageIDs dc)) \<longrightarrow>
        processCommit s cur curP seen cd hash =
          processCommit
            (s\<lparr>deletedChats := Some \<lparr>deletedMessageIDs = IdArray [],
                                     deletedPanelChatIDs = IdArray []\<rparr>\<rparr>)
            cur curP seen cd hash
        \<and> visibleIn s = messageIdsIn (panelChats s))
   \<and> (contentAt h line = Some s \<and> \<not> isDeletionCommit (commitMessageOf line) \<longrightarrow>
        (\<exists>commitData1 seen1.
           processCommit s cur curP seen
             (case map_of mp (commitHashOf line) of
                Some cd' \<Rightarrow> cd' | None \<Rightarrow> freshCommit line)
             (commitHashOf line) = Inr (commitData1, seen1) \<and>
           visitCommit h cur curP line (mp, seen) =
             Inr (mapSet (commitHashOf line) commitData1 mp, seen1)))"
proof (intro conjI impI)
  show "panelChatIDsOf (ensureDeletedChats s) = Inr (ledgerPanelChatIDs s)"
    by (rule panelChatIDsOf_ensureDeletedChats)
  show "messageIDsOf (ensureDeletedChats s) = Inr (ledgerMessageIDs s)"
    by (rule messageIDsOf_ensureDeletedChats)
  show "panelChatIDsOf s = Inl TypeError" if "deletedChats s = None"
    using that by (simp add: panelChatIDsOf_def)
  show "messageIDsOf s = Inl TypeError" if "deletedChats s = None"
    using that by (simp add: messageIDsOf_def)
  show "\<exists>commitData1 seen1.
        processCommit s cur curP seen cd hash = Inr (commitData1, seen1) \<and>
        messageIdsIn (panelChats_c commitData1) =
          messageIdsIn (panelChats_c cd) \<union> ((visibleIn s \<inter> cur) - seen) \<and>
        seen1 = seen \<union> (visibleIn s \<inter> cur)"
    using processCommit_ids [of s cur curP seen cd hash]
          processCommit_seen [of s cur curP seen cd hash]
    by (simp add: processCommit_reads)
  show "processCommit s cur curP seen cd hash =
       processCommit
         (s\<lparr>deletedChats := Some \<lparr>deletedMessageIDs = IdArray (ledgerMessageIDs s),
                                  deletedPanelChatIDs = IdArray (ledgerPanelChatIDs s)\<rparr>\<rparr>)
         cur curP seen cd hash"
    by (simp add: processCommit_reads ledger_of_arrays)
next
  assume a: "deletedChats s = None \<or>
        (\<exists>dc. deletedChats s = Some dc \<and> \<not> isArray (deletedPanelChatIDs dc) \<and>
              \<not> isArray (deletedMessageIDs dc))"
  have e: "ledgerPanelChatIDs s = []" using ledger_absent(1) [OF a] .
  show "processCommit s cur curP seen cd hash =
          processCommit
            (s\<lparr>deletedChats := Some \<lparr>deletedMessageIDs = IdArray [],
                                     deletedPanelChatIDs = IdArray []\<rparr>\<rparr>)
            cur curP seen cd hash"
    using e by (simp add: processCommit_reads ledger_of_arrays)
  show "visibleIn s = messageIdsIn (panelChats s)"
    by (rule visibleIn_no_ledger [OF e])
next
  assume "contentAt h line = Some s \<and> \<not> isDeletionCommit (commitMessageOf line)"
  then have sn: "snapshotAt h line = Some s" by (simp add: snapshotAt_def)
  show "\<exists>commitData1 seen1.
           processCommit s cur curP seen
             (case map_of mp (commitHashOf line) of
                Some cd' \<Rightarrow> cd' | None \<Rightarrow> freshCommit line)
             (commitHashOf line) = Inr (commitData1, seen1) \<and>
           visitCommit h cur curP line (mp, seen) =
             Inr (mapSet (commitHashOf line) commitData1 mp, seen1)"
    by (simp add: visitCommit_process [OF sn] processCommit_reads)
qed

section \<open>Properties of the later revision of getGitHistory\<close>

lemma processCommit_ctx_Inr:
  "\<exists>cd1 seen1. processCommit_ctx s cur curI seen cd hash = Inr (cd1, seen1)"
  by (simp add: processCommit_ctx_def Let_def split_beta)

lemma processCommit_ctx_ids:
  "messageIdsIn (panelChats_c (fst (projr (processCommit_ctx s cur curI seen cd hash))))
     = messageIdsIn (panelChats_c cd) \<union> ((visibleIn s \<inter> cur) - seen)"
  by (simp add: processCommit_ctx_def Let_def split_beta processPanelChats_ids visibleIn_def)

lemma panelChatIDsOf_parsedCurrent_ctx [simp]:
  "panelChatIDsOf (parsedCurrent_ctx c h) = Inr (ledgerPanelChatIDs (parsedCurrent_ctx c h))"
  by (simp add: parsedCurrent_ctx_def)

lemma messageIDsOf_parsedCurrent_ctx [simp]:
  "messageIDsOf (parsedCurrent_ctx c h) = Inr (ledgerMessageIDs (parsedCurrent_ctx c h))"
  by (simp add: parsedCurrent_ctx_def)

lemma within_mapSet:
  "within cur mp \<Longrightarrow> messageIdsIn (panelChats_c v) \<subseteq> cur \<Longrightarrow> within cur (mapSet k v mp)"
  by (induction mp) (auto simp: within_def)

lemma within_map_of:
  "within cur mp \<Longrightarrow> map_of mp k = Some cd \<Longrightarrow> messageIdsIn (panelChats_c cd) \<subseteq> cur"
  using map_of_SomeD unfolding within_def by fastforce

lemma processCommit_ctx_within:
  "messageIdsIn (panelChats_c cd) \<subseteq> cur \<Longrightarrow>
   messageIdsIn (panelChats_c (fst (projr (processCommit_ctx s cur curI seen cd hash)))) \<subseteq> cur"
  by (auto simp: processCommit_ctx_ids)

lemma visitCommit_ctx_skip:
  "contentAt h line = None \<Longrightarrow> visitCommit_ctx h cur curI line st = Inr st"
  by (cases st)
     (auto simp: visitCommit_ctx_def contentAt_def Let_def split: option.splits if_splits)

lemma visitCommit_ctx_process:
  assumes "contentAt h line = Some s"
  shows "visitCommit_ctx h cur curI line (mp, seen) =
     Inr (mapSet (commitHashOf line)
            (fst (projr (processCommit_ctx s cur curI seen
                    (case map_of mp (commitHashOf line) of
                       Some cd \<Rightarrow> cd
                     | None \<Rightarrow> \<lparr>commitHash = commitHashOf line, date = dateStrOf line,
                                 commitMessage = commitMessageOf line,
                                 author = authorNameOf line,
                                 panelChats_c = [], inlineChats_c = []\<rparr>)
                    (commitHashOf line)))) mp,
          snd (projr (processCommit_ctx s cur curI seen
                 (case map_of mp (commitHashOf line) of
                    Some cd \<Rightarrow> cd
                  | None \<Rightarrow> \<lparr>commitHash = commitHashOf line, date = dateStrOf line,
                              commitMessage = commitMessageOf line,
                              author = authorNameOf line,
                              panelChats_c = [], inlineChats_c = []\<rparr>)
                 (commitHashOf line))))"
proof -
  let ?cd = "case map_of mp (commitHashOf line) of
               Some cd \<Rightarrow> cd
             | None \<Rightarrow> \<lparr>commitHash = commitHashOf line, date = dateStrOf line,
                         commitMessage = commitMessageOf line, author = authorNameOf line,
                         panelChats_c = [], inlineChats_c = []\<rparr>"
  obtain cd1 seen1 where p: "processCommit_ctx s cur curI seen ?cd (commitHashOf line) = Inr (cd1, seen1)"
    using processCommit_ctx_Inr by blast
  show ?thesis
    using assms p
    by (auto simp: visitCommit_ctx_def contentAt_def Let_def split: option.splits if_splits)
qed

lemma visitCommit_ctx_Inr:
  "\<exists>mp1 seen1. visitCommit_ctx h cur curI line (mp, seen) = Inr (mp1, seen1)"
proof (cases "contentAt h line")
  case None
  then show ?thesis by (simp add: visitCommit_ctx_skip)
next
  case (Some s)
  then show ?thesis by (simp add: visitCommit_ctx_process)
qed

lemma visitCommit_ctx_within:
  assumes "within cur mp"
  shows "within cur (fst (projr (visitCommit_ctx h cur curI line (mp, seen))))"
proof (cases "contentAt h line")
  case None
  then show ?thesis using assms by (simp add: visitCommit_ctx_skip)
next
  case (Some s)
  let ?cd = "case map_of mp (commitHashOf line) of Some cd \<Rightarrow> cd
             | None \<Rightarrow> \<lparr>commitHash = commitHashOf line, date = dateStrOf line,
                         commitMessage = commitMessageOf line, author = authorNameOf line,
                         panelChats_c = [], inlineChats_c = []\<rparr>"
  have v: "fst (projr (visitCommit_ctx h cur curI line (mp, seen))) =
      mapSet (commitHashOf line)
        (fst (projr (processCommit_ctx s cur curI seen ?cd (commitHashOf line)))) mp"
    by (simp add: visitCommit_ctx_process [OF Some])
  have "messageIdsIn (panelChats_c ?cd) \<subseteq> cur"
    using within_map_of [OF assms] by (auto split: option.splits)
  then show ?thesis
    unfolding v by (intro within_mapSet [OF assms] processCommit_ctx_within)
qed

lemma walkCommits_ctx_Cons:
  "walkCommits_ctx h cur curI (l # ls) st =
     walkCommits_ctx h cur curI ls (projr (visitCommit_ctx h cur curI l st))"
proof -
  obtain mp seen where st: "st = (mp, seen)" by (cases st)
  obtain mp1 seen1 where "visitCommit_ctx h cur curI l (mp, seen) = Inr (mp1, seen1)"
    using visitCommit_ctx_Inr by blast
  then show ?thesis by (simp add: st)
qed

lemma walkCommits_ctx_Inr:
  "\<exists>mp1 seen1. walkCommits_ctx h cur curI ls st = Inr (mp1, seen1)"
proof (induction ls arbitrary: st)
  case Nil
  then show ?case by (cases st) simp
next
  case (Cons l ls)
  then show ?case by (simp only: walkCommits_ctx_Cons)
qed

lemma walkCommits_ctx_within:
  "within cur (fst st) \<Longrightarrow> within cur (fst (projr (walkCommits_ctx h cur curI ls st)))"
proof (induction ls arbitrary: st)
  case Nil
  then show ?case by simp
next
  case (Cons l ls)
  obtain mp seen where st: "st = (mp, seen)" by (cases st)
  have "within cur (fst (projr (visitCommit_ctx h cur curI l st)))"
    using Cons.prems visitCommit_ctx_within [of cur mp h curI l seen] by (simp add: st)
  then show ?case by (simp only: walkCommits_ctx_Cons Cons.IH)
qed

lemma addedPanelChats_ids:
  "messageIdsIn (fst (addedPanelChats delM pcs seen)) \<inter> delM = {}"
  by (induction pcs arbitrary: seen) (auto simp: Let_def split_beta)

lemma messageIdsIn_filter: "messageIdsIn (filter P chats) \<subseteq> messageIdsIn chats"
  by (induction chats) auto

lemma uncommittedPanelChats_ctx_ids:
  "messageIdsIn (uncommittedPanelChats_ctx delP delM seen chats) \<inter> delM = {}"
  by (auto simp: uncommittedPanelChats_ctx_def messageIdsIn_iff)

lemma getGitHistory_ctx_Inr:
  assumes res: "getGitHistory_ctx c h fp = Inr r"
  shows "\<exists>mp seen seen1 chats content.
           within (activeMessageIds (parsedCurrent_ctx c h)) mp
         \<and> commits_ctx r =
             filter (\<lambda>commit. list_ex (\<lambda>pc. length (messages pc) > 0) (panelChats_c commit))
               (map (\<lambda>commit. commit\<lparr>panelChats_c :=
                        filter (\<lambda>pc. length (messages pc) > 0) (panelChats_c commit)\<rparr>)
                  (map snd mp))
         \<and> added_ctx r = Some \<lparr>panelChats_u =
              filter (\<lambda>pc. length (messages pc) > 0)
                (fst (addedPanelChats (set (ledgerMessageIDs (parsedCurrent_ctx c h))) chats seen)),
              inlineChats_u = []\<rparr>
         \<and> uncommitted_ctx r = Some \<lparr>panelChats_u =
              uncommittedPanelChats_ctx (set (ledgerPanelChatIDs (parsedCurrent_ctx c h)))
                (set (ledgerMessageIDs (parsedCurrent_ctx c h))) seen1 content,
              inlineChats_u = []\<rparr>"
proof -
  let ?cur = "activeMessageIds (parsedCurrent_ctx c h)"
  have e: "existsSync h" using res by (simp add: getGitHistory_ctx_def split: if_splits)
  obtain ics where ics: "inlineChats (parsedCurrent_ctx c h) = Some ics"
    using res e by (cases "inlineChats (parsedCurrent_ctx c h)") (simp_all add: getGitHistory_ctx_def Let_def)
  obtain logData where lg: "gitLog h = Some logData"
    using res e ics by (cases "gitLog h") (simp_all add: getGitHistory_ctx_def Let_def)
  obtain mp seen where w: "walkCommits_ctx h ?cur (set (map inline_chat_id ics))
                             (logLinesOf logData) ([], {}) = Inr (mp, seen)"
    using walkCommits_ctx_Inr by blast
  obtain content where ct: "currentUncommittedContent c h = Inr content"
    using res e ics lg w
    by (cases "currentUncommittedContent c h")
       (simp_all add: getGitHistory_ctx_def Let_def split_beta activeMessageIds_def)
  define chats where "chats = filter (\<lambda>pc. id_panelChat pc \<notin> set (ledgerPanelChatIDs (parsedCurrent_ctx c h)))
                    (panelChats (readStashedState c))"
  define ad where "ad = addedPanelChats (set (ledgerMessageIDs (parsedCurrent_ctx c h))) chats seen"
  have r: "r = \<lparr>commits_ctx =
             filter (\<lambda>commit. list_ex (\<lambda>pc. length (messages pc) > 0) (panelChats_c commit))
               (map (\<lambda>commit. commit\<lparr>panelChats_c :=
                        filter (\<lambda>pc. length (messages pc) > 0) (panelChats_c commit)\<rparr>)
                  (map snd mp)),
           added_ctx = Some \<lparr>panelChats_u = filter (\<lambda>pc. length (messages pc) > 0) (fst ad),
              inlineChats_u = []\<rparr>,
           uncommitted_ctx = Some \<lparr>panelChats_u =
              uncommittedPanelChats_ctx (set (ledgerPanelChatIDs (parsedCurrent_ctx c h)))
                (set (ledgerMessageIDs (parsedCurrent_ctx c h))) (snd ad) content,
              inlineChats_u = []\<rparr>\<rparr>"
    using res e ics lg ct w
    unfolding getGitHistory_ctx_def Let_def split_beta ad_def chats_def activeMessageIds_def
    by simp
  have wi: "within ?cur mp"
    using walkCommits_ctx_within [of ?cur "([], {})" h "set (map inline_chat_id ics)" "logLinesOf logData"] w
    by (simp add: within_def)
  show ?thesis
    apply (rule exI [of _ mp], rule exI [of _ seen], rule exI [of _ "snd ad"])
    apply (rule exI [of _ chats], rule exI [of _ content])
    using wi by (simp add: r ad_def)
qed

lemma deletion_monotonicity_ctx:
  assumes res: "getGitHistory_ctx c h fp = Inr r"
      and m: "m \<in> set (ledgerMessageIDs (parsedCurrent_ctx c h))"
  shows "(\<forall>cd\<in>set (commits_ctx r). m \<notin> messageIdsIn (panelChats_c cd))
       \<and> (\<forall>a. added_ctx r = Some a \<longrightarrow> m \<notin> messageIdsIn (panelChats_u a))
       \<and> (\<forall>u. uncommitted_ctx r = Some u \<longrightarrow> m \<notin> messageIdsIn (panelChats_u u))"
proof -
  let ?cur = "activeMessageIds (parsedCurrent_ctx c h)"
  let ?delM = "set (ledgerMessageIDs (parsedCurrent_ctx c h))"
  let ?delP = "set (ledgerPanelChatIDs (parsedCurrent_ctx c h))"
  obtain mp seen seen1 chats content where w: "within ?cur mp"
    and cs: "commits_ctx r =
             filter (\<lambda>commit. list_ex (\<lambda>pc. length (messages pc) > 0) (panelChats_c commit))
               (map (\<lambda>commit. commit\<lparr>panelChats_c :=
                        filter (\<lambda>pc. length (messages pc) > 0) (panelChats_c commit)\<rparr>)
                  (map snd mp))"
    and ad: "added_ctx r = Some \<lparr>panelChats_u =
              filter (\<lambda>pc. length (messages pc) > 0) (fst (addedPanelChats ?delM chats seen)),
              inlineChats_u = []\<rparr>"
    and un: "uncommitted_ctx r = Some \<lparr>panelChats_u =
              uncommittedPanelChats_ctx ?delP ?delM seen1 content, inlineChats_u = []\<rparr>"
    using getGitHistory_ctx_Inr [OF res] by blast
  have notcur: "m \<notin> ?cur" using ledger_not_current [OF m] .
  have A: "\<forall>cd\<in>set (commits_ctx r). m \<notin> messageIdsIn (panelChats_c cd)"
  proof
    fix cd assume "cd \<in> set (commits_ctx r)"
    then obtain k cd0 where mem: "(k, cd0) \<in> set mp"
      and cd: "cd = cd0\<lparr>panelChats_c := filter (\<lambda>pc. length (messages pc) > 0) (panelChats_c cd0)\<rparr>"
      unfolding cs by auto
    have "messageIdsIn (panelChats_c cd0) \<subseteq> ?cur" using w mem unfolding within_def by auto
    moreover have "messageIdsIn (panelChats_c cd) \<subseteq> messageIdsIn (panelChats_c cd0)"
      unfolding cd using messageIdsIn_filter [of _ "panelChats_c cd0"] by simp
    ultimately show "m \<notin> messageIdsIn (panelChats_c cd)" using notcur by blast
  qed
  have "m \<notin> messageIdsIn (fst (addedPanelChats ?delM chats seen))"
    using m addedPanelChats_ids [of ?delM chats seen] by blast
  then have "m \<notin> messageIdsIn (filter (\<lambda>pc. length (messages pc) > 0) (fst (addedPanelChats ?delM chats seen)))"
    using messageIdsIn_filter by blast
  then have B: "\<forall>a. added_ctx r = Some a \<longrightarrow> m \<notin> messageIdsIn (panelChats_u a)"
    unfolding ad by simp
  have "m \<notin> messageIdsIn (uncommittedPanelChats_ctx ?delP ?delM seen1 content)"
    using m uncommittedPanelChats_ctx_ids [of ?delP ?delM seen1 content] by blast
  then have C: "\<forall>u. uncommitted_ctx r = Some u \<longrightarrow> m \<notin> messageIdsIn (panelChats_u u)"
    unfolding un by simp
  show ?thesis using A B C by blast
qed

lemma parsedCurrent_ledger:
  assumes "readFileSync h = Some currentContent" "JSON_parse h currentContent = Some parsed"
      and "isStashedState h parsed"
  shows "ledgerMessageIDs (parsedCurrent h) = ledgerMessageIDs parsed"
  using assms by (simp add: parsedCurrent_def)

lemma parsedCurrent_ctx_ledger:
  assumes "stashedState_ws c = Some stored" "isStashedState h stored"
  shows "ledgerMessageIDs (parsedCurrent_ctx c h) = ledgerMessageIDs stored"
  using assms by (simp add: parsedCurrent_ctx_def readStashedState_def)

text \<open>
  Claim C2 (deletion monotonicity). The ledger \<open>deletedMessageIDs\<close> that \<open>getGitHistory\<close>
  reads from the current snapshot lists the ids \<open>ledgerMessageIDs\<close>. A message id in it
  is in no commit data of the result and not in \<open>uncommitted\<close>; in the later revision,
  which also returns \<open>added\<close>, it is in no commit data, not in \<open>added\<close> and not in
  \<open>uncommitted\<close>.
\<close>

theorem deletion_monotonicity:
  "messageIDsOf (parsedCurrent h) = Inr (ledgerMessageIDs (parsedCurrent h))
   \<and> messageIDsOf (parsedCurrent_ctx context' h)
       = Inr (ledgerMessageIDs (parsedCurrent_ctx context' h))
   \<and> (getGitHistory h filePath = Inr r \<and> m \<in> set (ledgerMessageIDs (parsedCurrent h)) \<longrightarrow>
      (\<forall>cd\<in>set (commits r). m \<notin> messageIdsIn (panelChats_c cd)) \<and>
      (\<forall>u. uncommitted r = Some u \<longrightarrow> m \<notin> messageIdsIn (panelChats_u u)))
   \<and> (getGitHistory_ctx context' h filePath = Inr r' \<and>
      m \<in> set (ledgerMessageIDs (parsedCurrent_ctx context' h)) \<longrightarrow>
      (\<forall>cd\<in>set (commits_ctx r'). m \<notin> messageIdsIn (panelChats_c cd)) \<and>
      (\<forall>a. added_ctx r' = Some a \<longrightarrow> m \<notin> messageIdsIn (panelChats_u a)) \<and>
      (\<forall>u. uncommitted_ctx r' = Some u \<longrightarrow> m \<notin> messageIdsIn (panelChats_u u)))"
  using deletion_monotonicity_ext [of h filePath r m]
        deletion_monotonicity_ctx [of context' h filePath r' m]
        messageIDsOf_parsedCurrent [of h] messageIDsOf_parsedCurrent_ctx [of context' h]
  by blast

text \<open>
  The later revision of \<open>getGitHistory\<close> (gait_context.md) does what claim C3 says:
  every returned commit has a chat, and every chat of a returned commit has a message.
\<close>

theorem empty_chat_pruning_ctx:
  assumes "getGitHistory_ctx context' h filePath = Inr r"
  shows "\<forall>commit\<in>set (commits_ctx r).
           panelChats_c commit \<noteq> [] \<and> (\<forall>pc\<in>set (panelChats_c commit). messages pc \<noteq> [])"
proof -
  obtain mp :: "(string \<times> CommitData_ctx) list" where cs: "commits_ctx r =
             filter (\<lambda>commit. list_ex (\<lambda>pc. length (messages pc) > 0) (panelChats_c commit))
               (map (\<lambda>commit. commit\<lparr>panelChats_c :=
                        filter (\<lambda>pc. length (messages pc) > 0) (panelChats_c commit)\<rparr>)
                  (map snd mp))"
    using getGitHistory_ctx_Inr [OF assms] by blast
  show ?thesis unfolding cs by (auto simp: list_ex_iff filter_empty_conv)
qed

lemma commits_nonempty_ext:
  assumes "getGitHistory h filePath = Inr r"
  shows "\<forall>commit\<in>set (commits r). \<exists>pc\<in>set (panelChats_c commit). messages pc \<noteq> []"
proof -
  obtain d where "commits r =
           filter (\<lambda>commit. list_ex (\<lambda>pc. length (messages pc) > 0) (panelChats_c commit))
             (map snd (fst (projr (walkCommits h (activeMessageIds (parsedCurrent h))
                              (activePanelChatIds (parsedCurrent h)) (logLinesOf d) ([], {})))))"
    using getGitHistory_Inr [OF assms] by blast
  then show ?thesis by (auto simp: list_ex_iff)
qed

section \<open>Properties of the snapshot store\<close>

lemma readStashedState_write [simp]:
  "readStashedState (snd (writeStashedState c st)) = st"
  by (simp add: writeStashedState_def readStashedState_def Let_def)

lemma stashedState_ws_write [simp]:
  "stashedState_ws (snd (writeStashedState c st)) = Some st"
  by (simp add: writeStashedState_def Let_def)

lemma find_updateFirst:
  assumes "\<And>x. P x \<Longrightarrow> P (f x)"
  shows "find P (updateFirst P f xs) = map_option f (find P xs)"
  using assms by (induction xs) auto

lemma updateFirst_id:
  assumes "\<And>x. find P xs = Some x \<Longrightarrow> f x = x"
  shows "updateFirst P f xs = xs"
  using assms by (induction xs) (auto split: if_splits)

lemma list_ex_id_message:
  "list_ex (\<lambda>existingMessage. id_message existingMessage = x) msgs \<longleftrightarrow> x \<in> id_message ` set msgs"
  by (induction msgs) auto

lemma writeChat_state:
  "readStashedState (snd (writeChatToStashedState c newChat)) =
     (readStashedState c)\<lparr>panelChats :=
        (case find (\<lambda>chat. id_panelChat chat = id_panelChat newChat) (panelChats (readStashedState c)) of
           Some _ \<Rightarrow> updateFirst (\<lambda>chat. id_panelChat chat = id_panelChat newChat)
                       (appendNew newChat) (panelChats (readStashedState c))
         | None \<Rightarrow> panelChats (readStashedState c) @ [newChat])\<rparr>"
  by (simp add: writeChatToStashedState_def Let_def appendNew_def [abs_def] cong: option.case_cong)

lemma writeChat_ws:
  "stashedState_ws (snd (writeChatToStashedState c newChat)) =
     Some (readStashedState (snd (writeChatToStashedState c newChat)))"
  by (simp add: writeChatToStashedState_def Let_def)

lemma appendNew_id [simp]: "id_panelChat (appendNew newChat ex) = id_panelChat ex"
  by (simp add: appendNew_def)

lemma storedMessages_write_some:
  assumes "storedMessages c (id_panelChat newChat) = Some msgs"
  shows "storedMessages (snd (writeChatToStashedState c newChat)) (id_panelChat newChat) =
           Some (msgs @ filter (\<lambda>message. id_message message \<notin> id_message ` set msgs)
                          (messages newChat))"
proof -
  let ?P = "\<lambda>chat. id_panelChat chat = id_panelChat newChat"
  obtain ex where ex: "find ?P (panelChats (readStashedState c)) = Some ex" "messages ex = msgs"
    using assms by (auto simp: storedMessages_def)
  have "find ?P (updateFirst ?P (appendNew newChat) (panelChats (readStashedState c)))
        = Some (appendNew newChat ex)"
    using find_updateFirst [of ?P "appendNew newChat"] ex by simp
  moreover have "filter (\<lambda>message. \<not> list_ex (\<lambda>existingMessage.
                               id_message existingMessage = id_message message) msgs)
                   (messages newChat)
               = filter (\<lambda>message. id_message message \<notin> id_message ` set msgs) (messages newChat)"
    by (simp add: list_ex_id_message)
  ultimately show ?thesis
    using ex by (simp add: storedMessages_def writeChat_state appendNew_def)
qed

lemma storedMessages_write_none:
  assumes "storedMessages c (id_panelChat newChat) = None"
  shows "storedMessages (snd (writeChatToStashedState c newChat)) (id_panelChat newChat) =
           Some (messages newChat)
         \<and> panelChats (readStashedState (snd (writeChatToStashedState c newChat))) =
           panelChats (readStashedState c) @ [newChat]"
proof -
  let ?P = "\<lambda>chat. id_panelChat chat = id_panelChat newChat"
  have n: "find ?P (panelChats (readStashedState c)) = None"
    using assms by (simp add: storedMessages_def)
  have "find ?P (panelChats (readStashedState c) @ [newChat]) = Some newChat"
    by (rule find_append_new [OF n]) simp
  then show ?thesis using n by (simp add: storedMessages_def writeChat_state)
qed

lemma countId_append [simp]: "countId m (xs @ ys) = countId m xs + countId m ys"
  by (simp add: countId_def)

lemma countId_pos_iff: "0 < countId m msgs \<longleftrightarrow> m \<in> id_message ` set msgs"
  by (auto simp: countId_def filter_empty_conv)

lemma countId_filter_new:
  "countId m (filter (\<lambda>message. id_message message \<notin> S) msgs) =
     (if m \<in> S then 0 else countId m msgs)"
  by (induction msgs) (auto simp: countId_def)

lemma filter_new_empty:
  assumes "id_message ` set new \<subseteq> id_message ` set msgs"
  shows "filter (\<lambda>message. id_message message \<notin> id_message ` set msgs) new = []"
  using assms by (auto simp: filter_empty_conv)

lemma writeChat_twice:
  "readStashedState (snd (writeChatToStashedState (snd (writeChatToStashedState c newChat)) newChat))
     = readStashedState (snd (writeChatToStashedState c newChat))"
proof -
  let ?c1 = "snd (writeChatToStashedState c newChat)"
  let ?P = "\<lambda>chat. id_panelChat chat = id_panelChat newChat"
  obtain msgs1 where m1: "storedMessages ?c1 (id_panelChat newChat) = Some msgs1"
    and sub: "id_message ` set (messages newChat) \<subseteq> id_message ` set msgs1"
  proof (cases "storedMessages c (id_panelChat newChat)")
    case None
    then show ?thesis using storedMessages_write_none [OF None] that by auto
  next
    case (Some msgs)
    show ?thesis
      by (rule that [OF storedMessages_write_some [OF Some]]) auto
  qed
  obtain ex where ex: "find ?P (panelChats (readStashedState ?c1)) = Some ex" "messages ex = msgs1"
    using m1 by (auto simp: storedMessages_def)
  have same: "appendNew newChat ex = ex"
  proof -
    have "filter (\<lambda>message. id_message message \<notin> id_message ` set (messages ex)) (messages newChat) = []"
      using sub ex(2) by (intro filter_new_empty) simp
    then show ?thesis by (simp add: appendNew_def list_ex_id_message)
  qed
  have "updateFirst ?P (appendNew newChat) (panelChats (readStashedState ?c1))
        = panelChats (readStashedState ?c1)"
    by (rule updateFirst_id) (use ex same in simp)
  then show ?thesis
    by (subst writeChat_state) (simp add: ex)
qed

text \<open>
  Claim C9 (idempotent append). A second \<open>writeChatToStashedState\<close> with the same chat
  leaves the stored state as the first left it. When a chat with the id is stored, the
  call appends the messages of the new chat whose id the stored chat does not hold. A
  message id that the new chat carries once, and the stored chat at most once, is held
  exactly once after two calls. When no chat with the id is stored, the new chat is
  appended to the stored chats.
\<close>

theorem idempotent_append:
  "stashedState_ws
      (snd (writeChatToStashedState (snd (writeChatToStashedState context' newChat)) newChat))
     = stashedState_ws (snd (writeChatToStashedState context' newChat))
   \<and> (\<forall>msgs. storedMessages context' (id_panelChat newChat) = Some msgs \<longrightarrow>
         storedMessages (snd (writeChatToStashedState context' newChat)) (id_panelChat newChat) =
           Some (msgs @ filter (\<lambda>message. id_message message \<notin> id_message ` set msgs)
                          (messages newChat)))
   \<and> (countId m (messages newChat) = 1 \<and>
       (\<forall>msgs. storedMessages context' (id_panelChat newChat) = Some msgs \<longrightarrow> countId m msgs \<le> 1)
       \<longrightarrow> (\<exists>msgs. storedMessages
                     (snd (writeChatToStashedState
                            (snd (writeChatToStashedState context' newChat)) newChat))
                     (id_panelChat newChat) = Some msgs \<and> countId m msgs = 1))
   \<and> (storedMessages context' (id_panelChat newChat) = None \<longrightarrow>
         panelChats (readStashedState (snd (writeChatToStashedState context' newChat))) =
           panelChats (readStashedState context') @ [newChat])"
proof (intro conjI allI impI)
  let ?c1 = "snd (writeChatToStashedState context' newChat)"
  let ?c2 = "snd (writeChatToStashedState ?c1 newChat)"
  show "stashedState_ws ?c2 = stashedState_ws ?c1"
    by (simp only: writeChat_ws writeChat_twice)
  {
    fix msgs assume "storedMessages context' (id_panelChat newChat) = Some msgs"
    then show "storedMessages ?c1 (id_panelChat newChat) =
           Some (msgs @ filter (\<lambda>message. id_message message \<notin> id_message ` set msgs)
                          (messages newChat))"
      by (rule storedMessages_write_some)
  }
  {
    assume a: "countId m (messages newChat) = 1 \<and>
       (\<forall>msgs. storedMessages context' (id_panelChat newChat) = Some msgs \<longrightarrow> countId m msgs \<le> 1)"
    have same: "storedMessages ?c2 (id_panelChat newChat) = storedMessages ?c1 (id_panelChat newChat)"
      by (simp only: storedMessages_def writeChat_twice)
    have "\<exists>msgs. storedMessages ?c1 (id_panelChat newChat) = Some msgs \<and> countId m msgs = 1"
    proof (cases "storedMessages context' (id_panelChat newChat)")
      case None
      then show ?thesis using storedMessages_write_none [OF None] a by simp
    next
      case (Some msgs)
      have le: "countId m msgs \<le> 1" using a Some by simp
      show ?thesis
      proof (cases "m \<in> id_message ` set msgs")
        case True
        then have "countId m msgs = 1" using le countId_pos_iff [of m msgs] by simp
        then show ?thesis
          using storedMessages_write_some [OF Some] True by (simp add: countId_filter_new)
      next
        case False
        then have "countId m msgs = 0" using countId_pos_iff [of m msgs] by simp
        then show ?thesis
          using storedMessages_write_some [OF Some] False a by (simp add: countId_filter_new)
      qed
    qed
    then show "\<exists>msgs. storedMessages ?c2 (id_panelChat newChat) = Some msgs \<and> countId m msgs = 1"
      unfolding same .
  }
  {
    assume "storedMessages context' (id_panelChat newChat) = None"
    then show "panelChats (readStashedState ?c1) = panelChats (readStashedState context') @ [newChat]"
      using storedMessages_write_none by blast
  }
qed

section \<open>The claims on example histories\<close>

text \<open>
  Two commits: the first holds \<open>m1\<close>, the second holds \<open>m1\<close> and \<open>m2\<close>. The message
  \<open>m1\<close> goes to the first commit and not to the second.
\<close>

theorem earliest_attribution_witness:
  "getGitHistory
     (exampleHost (exampleSnapshot [exampleChat ''A'' [''m1'', ''m2'']] None)
        [exampleLine ''c1'' ''first'', exampleLine ''c2'' ''second'']
        [(''c1'', exampleSnapshot [exampleChat ''A'' [''m1'']] None),
         (''c2'', exampleSnapshot [exampleChat ''A'' [''m1'', ''m2'']] None)] [])
     ''.gait/stashedPanelChats.json''
     = Inr \<lparr>commits = [exampleCommit ''c1'' ''first'' [exampleChat ''A'' [''m1'']],
                        exampleCommit ''c2'' ''second'' [exampleChat ''A'' [''m2'']]],
            uncommitted = None\<rparr>
   \<and> (\<exists>cd\<in>set [exampleCommit ''c1'' ''first'' [exampleChat ''A'' [''m1'']],
                 exampleCommit ''c2'' ''second'' [exampleChat ''A'' [''m2'']]].
         commitHash cd = ''c1'' \<and> ''m1'' \<in> messageIdsIn (panelChats_c cd))
   \<and> ''m1'' \<notin> messageIdsIn (panelChats_c (exampleCommit ''c2'' ''second'' [exampleChat ''A'' [''m2'']]))"
proof -
  let ?h = "exampleHost (exampleSnapshot [exampleChat ''A'' [''m1'', ''m2'']] None)
        [exampleLine ''c1'' ''first'', exampleLine ''c2'' ''second'']
        [(''c1'', exampleSnapshot [exampleChat ''A'' [''m1'']] None),
         (''c2'', exampleSnapshot [exampleChat ''A'' [''m1'', ''m2'']] None)] []"
  let ?d = "joinWith (CHR 0x0A) [exampleLine ''c1'' ''first'', exampleLine ''c2'' ''second'']"
  let ?c1 = "exampleCommit ''c1'' ''first'' [exampleChat ''A'' [''m1'']]"
  let ?c2 = "exampleCommit ''c2'' ''second'' [exampleChat ''A'' [''m2'']]"
  let ?r = "\<lparr>commits = [?c1, ?c2], uncommitted = None\<rparr>"
  have res: "getGitHistory ?h ''.gait/stashedPanelChats.json'' = Inr ?r" by code_simp
  have log: "gitLog ?h = Some ?d" by code_simp
  have lines: "logLinesOf ?d = [exampleLine ''c1'' ''first'', exampleLine ''c2'' ''second'']"
    by code_simp
  have i: "0 < length (logLinesOf ?d)" unfolding lines by simp
  have act: "''m1'' \<in> activeMessageIds (parsedCurrent ?h)" by code_simp
  have shown: "''m1'' \<in> shownAt ?h (logLinesOf ?d ! 0)" unfolding lines by code_simp
  have first: "\<forall>k<0. ''m1'' \<notin> shownAt ?h (logLinesOf ?d ! k)" by simp
  have hash: "commitHashOf (logLinesOf ?d ! 0) = ''c1''" unfolding lines by code_simp
  note T = earliest_attribution [OF res log i act shown first, unfolded hash]
  have cs: "commits ?r = [?c1, ?c2]" by simp
  have A: "\<exists>cd\<in>set [?c1, ?c2]. commitHash cd = ''c1'' \<and> ''m1'' \<in> messageIdsIn (panelChats_c cd)"
    using T unfolding cs by blast
  have "?c2 \<in> set [?c1, ?c2]" by simp
  moreover have "commitHash ?c2 \<noteq> ''c1''" by code_simp
  ultimately have B: "''m1'' \<notin> messageIdsIn (panelChats_c ?c2)"
    using T unfolding cs by blast
  show ?thesis using res A B by (intro conjI)
qed

text \<open>
  Claim C3 fails on \<open>getGitHistory\<close> of \<open>panelgit.ts\<close>: commit \<open>c2\<close> keeps chat \<open>A\<close>, whose
  only message was attributed to \<open>c1\<close>, and adds chat \<open>B\<close>. Its commit data is returned
  with chat \<open>A\<close> and no message in it.
\<close>

theorem empty_chat_survives:
  "getGitHistory
     (exampleHost (exampleSnapshot [exampleChat ''A'' [''m1''], exampleChat ''B'' [''m2'']] None)
        [exampleLine ''c1'' ''first'', exampleLine ''c2'' ''second'']
        [(''c1'', exampleSnapshot [exampleChat ''A'' [''m1'']] None),
         (''c2'', exampleSnapshot [exampleChat ''A'' [''m1''], exampleChat ''B'' [''m2'']] None)] [])
     ''.gait/stashedPanelChats.json''
     = Inr \<lparr>commits = [exampleCommit ''c1'' ''first'' [exampleChat ''A'' [''m1'']],
                        exampleCommit ''c2'' ''second''
                          [exampleChat ''A'' [], exampleChat ''B'' [''m2'']]],
            uncommitted = None\<rparr>"
  by code_simp

text \<open>
  Claim C7 as stated fails. First, the tracked file exists and the commit list is
  retrieved (it is empty), \<open>git status\<close> fails, and the function throws. Second, the file
  cannot be shown at \<open>c2\<close>, and \<open>c3\<close> is a valid commit that only retains the message
  \<open>m1\<close> of \<open>c1\<close>: the function returns \<open>c1\<close> alone, without the valid commit \<open>c3\<close>.
\<close>

theorem walk_failure_boundary_counterexample:
  "existsSync
     ((exampleHost (exampleSnapshot [] None) [] [] [])\<lparr>gitStatus := None\<rparr>)
   \<and> gitLog ((exampleHost (exampleSnapshot [] None) [] [] [])\<lparr>gitStatus := None\<rparr>) = Some []
   \<and> getGitHistory ((exampleHost (exampleSnapshot [] None) [] [] [])\<lparr>gitStatus := None\<rparr>)
        ''.gait/stashedPanelChats.json'' = Inl GitStatusFailed
   \<and> contentAt
        (exampleHost (exampleSnapshot [exampleChat ''A'' [''m1'']] None)
           [exampleLine ''c1'' ''first'', exampleLine ''c2'' ''second'',
            exampleLine ''c3'' ''third'']
           [(''c1'', exampleSnapshot [exampleChat ''A'' [''m1'']] None),
            (''c3'', exampleSnapshot [exampleChat ''A'' [''m1'']] None)] [])
        (exampleLine ''c3'' ''third'')
      = Some (exampleSnapshot [exampleChat ''A'' [''m1'']] None)
   \<and> \<not> isDeletionCommit (commitMessageOf (exampleLine ''c3'' ''third''))
   \<and> getGitHistory
        (exampleHost (exampleSnapshot [exampleChat ''A'' [''m1'']] None)
           [exampleLine ''c1'' ''first'', exampleLine ''c2'' ''second'',
            exampleLine ''c3'' ''third'']
           [(''c1'', exampleSnapshot [exampleChat ''A'' [''m1'']] None),
            (''c3'', exampleSnapshot [exampleChat ''A'' [''m1'']] None)] [])
        ''.gait/stashedPanelChats.json''
      = Inr \<lparr>commits = [exampleCommit ''c1'' ''first'' [exampleChat ''A'' [''m1'']]],
             uncommitted = None\<rparr>"
  by code_simp

text \<open>
  The file cannot be shown at \<open>c2\<close>: the result is that of the log with \<open>c1\<close> and \<open>c3\<close>
  alone, and it holds the commit data of \<open>c3\<close>, the first commit to show \<open>m2\<close>, with that
  message; no commit data has the hash \<open>c2\<close>. Without a commit list the function throws.
\<close>

theorem walk_failure_boundary_witness:
  "getGitHistory
     ((exampleHost (exampleSnapshot [exampleChat ''A'' [''m1'', ''m2'']] None)
        [exampleLine ''c1'' ''first'', exampleLine ''c2'' ''second'',
         exampleLine ''c3'' ''third'']
        [(''c1'', exampleSnapshot [exampleChat ''A'' [''m1'']] None),
         (''c3'', exampleSnapshot [exampleChat ''A'' [''m1'', ''m2'']] None)] [])
      \<lparr>gitLog := Some (joinWith (CHR 0x0A)
                         [exampleLine ''c1'' ''first'', exampleLine ''c3'' ''third''])\<rparr>)
     ''.gait/stashedPanelChats.json''
   = getGitHistory
     (exampleHost (exampleSnapshot [exampleChat ''A'' [''m1'', ''m2'']] None)
        [exampleLine ''c1'' ''first'', exampleLine ''c2'' ''second'',
         exampleLine ''c3'' ''third'']
        [(''c1'', exampleSnapshot [exampleChat ''A'' [''m1'']] None),
         (''c3'', exampleSnapshot [exampleChat ''A'' [''m1'', ''m2'']] None)] [])
     ''.gait/stashedPanelChats.json''
   \<and> getGitHistory
     (exampleHost (exampleSnapshot [exampleChat ''A'' [''m1'', ''m2'']] None)
        [exampleLine ''c1'' ''first'', exampleLine ''c2'' ''second'',
         exampleLine ''c3'' ''third'']
        [(''c1'', exampleSnapshot [exampleChat ''A'' [''m1'']] None),
         (''c3'', exampleSnapshot [exampleChat ''A'' [''m1'', ''m2'']] None)] [])
     ''.gait/stashedPanelChats.json''
     = Inr \<lparr>commits = [exampleCommit ''c1'' ''first'' [exampleChat ''A'' [''m1'']],
                        exampleCommit ''c3'' ''third'' [exampleChat ''A'' [''m2'']]],
            uncommitted = None\<rparr>
   \<and> (\<exists>cd\<in>set [exampleCommit ''c1'' ''first'' [exampleChat ''A'' [''m1'']],
                 exampleCommit ''c3'' ''third'' [exampleChat ''A'' [''m2'']]].
         commitHash cd = ''c3'' \<and> ''m2'' \<in> messageIdsIn (panelChats_c cd))
   \<and> ''c3'' \<in> commitHash ` set [exampleCommit ''c1'' ''first'' [exampleChat ''A'' [''m1'']],
                                 exampleCommit ''c3'' ''third'' [exampleChat ''A'' [''m2'']]]
   \<and> (\<exists>e. getGitHistory
          ((exampleHost (exampleSnapshot [] None) [] [] [])\<lparr>gitLog := None\<rparr>)
          ''.gait/stashedPanelChats.json'' = Inl e)"
proof -
  let ?h = "exampleHost (exampleSnapshot [exampleChat ''A'' [''m1'', ''m2'']] None)
        [exampleLine ''c1'' ''first'', exampleLine ''c2'' ''second'',
         exampleLine ''c3'' ''third'']
        [(''c1'', exampleSnapshot [exampleChat ''A'' [''m1'']] None),
         (''c3'', exampleSnapshot [exampleChat ''A'' [''m1'', ''m2'']] None)] []"
  let ?d = "joinWith (CHR 0x0A)
              [exampleLine ''c1'' ''first'', exampleLine ''c2'' ''second'',
               exampleLine ''c3'' ''third'']"
  let ?d' = "joinWith (CHR 0x0A) [exampleLine ''c1'' ''first'', exampleLine ''c3'' ''third'']"
  let ?c1 = "exampleCommit ''c1'' ''first'' [exampleChat ''A'' [''m1'']]"
  let ?c3 = "exampleCommit ''c3'' ''third'' [exampleChat ''A'' [''m2'']]"
  let ?r = "\<lparr>commits = [?c1, ?c3], uncommitted = None\<rparr>"
  let ?fp = "''.gait/stashedPanelChats.json''"
  note T = walk_failure_boundary [of ?h ?fp]
  have log: "gitLog ?h = Some ?d" by code_simp
  have lines: "logLinesOf ?d =
      [exampleLine ''c1'' ''first'', exampleLine ''c2'' ''second'', exampleLine ''c3'' ''third'']"
    by code_simp
  have l1: "logLinesOf ?d = [exampleLine ''c1'' ''first''] @ exampleLine ''c2'' ''second''
                              # [exampleLine ''c3'' ''third'']"
    unfolding lines by simp
  have l2: "logLinesOf ?d' = [exampleLine ''c1'' ''first''] @ [exampleLine ''c3'' ''third'']"
    by code_simp
  have bad: "contentAt ?h (exampleLine ''c2'' ''second'') = None" by code_simp
  have A: "getGitHistory (?h\<lparr>gitLog := Some ?d'\<rparr>) ?fp = getGitHistory ?h ?fp"
    using T log l1 l2 bad by blast
  have res: "getGitHistory ?h ?fp = Inr ?r" by code_simp
  have cs: "commits ?r = [?c1, ?c3]" by simp
  have len: "2 < length (logLinesOf ?d)" unfolding lines by simp
  have hash: "commitHashOf (logLinesOf ?d ! 2) = ''c3''" unfolding lines by code_simp
  have att: "''m2'' \<in> attributedAt ?h (activeMessageIds (parsedCurrent ?h)) (logLinesOf ?d) 2"
    unfolding lines by code_simp
  have "\<exists>cd\<in>set (commits ?r). commitHash cd = commitHashOf (logLinesOf ?d ! 2) \<and>
           ''m2'' \<in> messageIdsIn (panelChats_c cd)"
    using T res log len att by blast
  then have B: "\<exists>cd\<in>set [?c1, ?c3]. commitHash cd = ''c3'' \<and> ''m2'' \<in> messageIdsIn (panelChats_c cd)"
    unfolding hash cs .
  have ne: "attributedAt ?h (activeMessageIds (parsedCurrent ?h)) (logLinesOf ?d) 2 \<noteq> {}"
    using att by blast
  have "commitHashOf (logLinesOf ?d ! 2) \<in> commitHash ` set (commits ?r)"
    using T res log len ne by blast
  then have C: "''c3'' \<in> commitHash ` set [?c1, ?c3]" unfolding hash cs .
  let ?g = "(exampleHost (exampleSnapshot [] None) [] [] [])\<lparr>gitLog := None\<rparr>"
  have "gitLog ?g = None" by simp
  then have D: "\<exists>e. getGitHistory ?g ?fp = Inl e"
    using walk_failure_boundary [of ?g ?fp] by blast
  show ?thesis using A res B C D by (intro conjI)
qed

text \<open>
  Claim C1 as stated fails. In the first history the snapshot of commit \<open>c1\<close> holds the
  active message \<open>m1\<close> in chat \<open>A\<close>, which the ledger of \<open>c1\<close> marks deleted; in the
  second, \<open>c1\<close> is a deletion commit. Both times \<open>m1\<close> is in the snapshots of \<open>c1\<close> and
  of the later \<open>c2\<close>, and the result attributes it to \<open>c2\<close>; \<open>c1\<close> is not returned.
\<close>

theorem earliest_attribution_counterexample:
  "map_option (\<lambda>s. ''m1'' \<in> messageIdsIn (panelChats s))
     (contentAt
        (exampleHost (exampleSnapshot [exampleChat ''A'' [''m1'']] None)
          [exampleLine ''c1'' ''first'', exampleLine ''c2'' ''second'']
          [(''c1'', exampleSnapshot [exampleChat ''A'' [''m1'']]
                     (Some \<lparr>deletedMessageIDs = IdArray [], deletedPanelChatIDs = IdArray [''A'']\<rparr>)),
           (''c2'', exampleSnapshot [exampleChat ''A'' [''m1'']] None)] [])
        (exampleLine ''c1'' ''first'')) = Some True
   \<and> ''m1'' \<in> activeMessageIds (parsedCurrent
      (exampleHost (exampleSnapshot [exampleChat ''A'' [''m1'']] None)
        [exampleLine ''c1'' ''first'', exampleLine ''c2'' ''second'']
        [(''c1'', exampleSnapshot [exampleChat ''A'' [''m1'']]
                   (Some \<lparr>deletedMessageIDs = IdArray [], deletedPanelChatIDs = IdArray [''A'']\<rparr>)),
         (''c2'', exampleSnapshot [exampleChat ''A'' [''m1'']] None)] []))
   \<and> getGitHistory
     (exampleHost (exampleSnapshot [exampleChat ''A'' [''m1'']] None)
        [exampleLine ''c1'' ''first'', exampleLine ''c2'' ''second'']
        [(''c1'', exampleSnapshot [exampleChat ''A'' [''m1'']]
                   (Some \<lparr>deletedMessageIDs = IdArray [], deletedPanelChatIDs = IdArray [''A'']\<rparr>)),
         (''c2'', exampleSnapshot [exampleChat ''A'' [''m1'']] None)] [])
     ''.gait/stashedPanelChats.json''
     = Inr \<lparr>commits = [exampleCommit ''c2'' ''second'' [exampleChat ''A'' [''m1'']]],
            uncommitted = None\<rparr>
   \<and> getGitHistory
     (exampleHost (exampleSnapshot [exampleChat ''A'' [''m1'']] None)
        [exampleLine ''c1'' ''Delete message with ID m0'', exampleLine ''c2'' ''second'']
        [(''c1'', exampleSnapshot [exampleChat ''A'' [''m1'']] None),
         (''c2'', exampleSnapshot [exampleChat ''A'' [''m1'']] None)] [])
     ''.gait/stashedPanelChats.json''
     = Inr \<lparr>commits = [exampleCommit ''c2'' ''second'' [exampleChat ''A'' [''m1'']]],
            uncommitted = None\<rparr>"
  by code_simp

text \<open>
  The current ledger deletes \<open>m1\<close>, which the only commit still holds; for the later
  revision the stored state and the working buffer hold it as well.
\<close>

theorem deletion_monotonicity_witness:
  "''m1'' \<in> set (ledgerMessageIDs (parsedCurrent
       (exampleHost
          (exampleSnapshot [exampleChat ''A'' [''m1'', ''m2'']]
             (Some \<lparr>deletedMessageIDs = IdArray [''m1''], deletedPanelChatIDs = IdArray []\<rparr>))
          [exampleLine ''c1'' ''first'']
          [(''c1'', exampleSnapshot [exampleChat ''A'' [''m1'', ''m2'']] None)]
          [''.gait/stashedPanelChats.json''])))
   \<and> getGitHistory
       (exampleHost
          (exampleSnapshot [exampleChat ''A'' [''m1'', ''m2'']]
             (Some \<lparr>deletedMessageIDs = IdArray [''m1''], deletedPanelChatIDs = IdArray []\<rparr>))
          [exampleLine ''c1'' ''first'']
          [(''c1'', exampleSnapshot [exampleChat ''A'' [''m1'', ''m2'']] None)]
          [''.gait/stashedPanelChats.json''])
       ''.gait/stashedPanelChats.json''
     = Inr \<lparr>commits = [exampleCommit ''c1'' ''first'' [exampleChat ''A'' [''m2'']]],
            uncommitted = Some \<lparr>panelChats_u = [exampleChat ''A'' [''m2'']]\<rparr>\<rparr>
   \<and> ''m1'' \<notin> messageIdsIn (panelChats_c (exampleCommit ''c1'' ''first'' [exampleChat ''A'' [''m2'']]))
   \<and> ''m1'' \<notin> messageIdsIn (panelChats_u \<lparr>panelChats_u = [exampleChat ''A'' [''m2'']]\<rparr>)
   \<and> getGitHistory_ctx
       (exampleContext
          (Some (exampleSnapshot [exampleChat ''A'' [''m1'', ''m2''], exampleChat ''B'' [''m1'', ''m3'']]
             (Some \<lparr>deletedMessageIDs = IdArray [''m1''], deletedPanelChatIDs = IdArray []\<rparr>)))
          (Stored [exampleChat ''C'' [''m1'', ''m4'']]))
       (exampleHost (exampleSnapshot [] None)
          [exampleLine ''c1'' ''first'']
          [(''c1'', exampleSnapshot [exampleChat ''A'' [''m1'', ''m2'']] None)] [])
       ''.gait/stashedGaitState2.json''
     = Inr \<lparr>commits_ctx =
              [\<lparr>commitHash = ''c1'', date = Some ''Mon Oct 7'', commitMessage = ''first'',
                author = Some ''ann'', panelChats_c = [exampleChat ''A'' [''m2'']],
                inlineChats_c = []\<rparr>],
            added_ctx = Some \<lparr>panelChats_u = [exampleChat ''B'' [''m3'']], inlineChats_u = []\<rparr>,
            uncommitted_ctx =
              Some \<lparr>panelChats_u = [exampleChat ''C'' [''m4'']], inlineChats_u = []\<rparr>\<rparr>
   \<and> ''m1'' \<notin> messageIdsIn (panelChats_u
          \<lparr>panelChats_u = [exampleChat ''B'' [''m3'']], inlineChats_u = []\<rparr>)
   \<and> ''m1'' \<notin> messageIdsIn (panelChats_u
          \<lparr>panelChats_u = [exampleChat ''C'' [''m4'']], inlineChats_u = []\<rparr>)"
proof -
  let ?h = "exampleHost
          (exampleSnapshot [exampleChat ''A'' [''m1'', ''m2'']]
             (Some \<lparr>deletedMessageIDs = IdArray [''m1''], deletedPanelChatIDs = IdArray []\<rparr>))
          [exampleLine ''c1'' ''first'']
          [(''c1'', exampleSnapshot [exampleChat ''A'' [''m1'', ''m2'']] None)]
          [''.gait/stashedPanelChats.json'']"
  let ?c1 = "exampleCommit ''c1'' ''first'' [exampleChat ''A'' [''m2'']]"
  let ?u = "\<lparr>panelChats_u = [exampleChat ''A'' [''m2'']]\<rparr>"
  let ?r = "\<lparr>commits = [?c1], uncommitted = Some ?u\<rparr>"
  let ?c = "exampleContext
          (Some (exampleSnapshot [exampleChat ''A'' [''m1'', ''m2''], exampleChat ''B'' [''m1'', ''m3'']]
             (Some \<lparr>deletedMessageIDs = IdArray [''m1''], deletedPanelChatIDs = IdArray []\<rparr>)))
          (Stored [exampleChat ''C'' [''m1'', ''m4'']])"
  let ?g = "exampleHost (exampleSnapshot [] None)
          [exampleLine ''c1'' ''first'']
          [(''c1'', exampleSnapshot [exampleChat ''A'' [''m1'', ''m2'']] None)] []"
  let ?k1 = "\<lparr>commitHash = ''c1'', date = Some ''Mon Oct 7'', commitMessage = ''first'',
                author = Some ''ann'', panelChats_c = [exampleChat ''A'' [''m2'']],
                inlineChats_c = []\<rparr>"
  let ?a = "\<lparr>panelChats_u = [exampleChat ''B'' [''m3'']], inlineChats_u = []\<rparr>"
  let ?v = "\<lparr>panelChats_u = [exampleChat ''C'' [''m4'']], inlineChats_u = []\<rparr>"
  let ?r' = "\<lparr>commits_ctx = [?k1], added_ctx = Some ?a, uncommitted_ctx = Some ?v\<rparr>"
  have led: "''m1'' \<in> set (ledgerMessageIDs (parsedCurrent ?h))" by code_simp
  have res: "getGitHistory ?h ''.gait/stashedPanelChats.json'' = Inr ?r" by code_simp
  have led': "''m1'' \<in> set (ledgerMessageIDs (parsedCurrent_ctx ?c ?g))" by code_simp
  have res': "getGitHistory_ctx ?c ?g ''.gait/stashedGaitState2.json'' = Inr ?r'" by code_simp
  note T1 = deletion_monotonicity [where h = ?h and filePath = "''.gait/stashedPanelChats.json''"
              and r = ?r and m = "''m1''",
              THEN conjunct2, THEN conjunct2, THEN conjunct1, rule_format, OF conjI [OF res led]]
  note T2 = deletion_monotonicity [where h = ?g and filePath = "''.gait/stashedGaitState2.json''"
              and r' = ?r' and m = "''m1''" and context' = ?c,
              THEN conjunct2, THEN conjunct2, THEN conjunct2, rule_format, OF conjI [OF res' led']]
  have A: "''m1'' \<notin> messageIdsIn (panelChats_c ?c1)"
    using T1 [THEN conjunct1] by simp
  have B: "''m1'' \<notin> messageIdsIn (panelChats_u ?u)"
    using T1 [THEN conjunct2] by simp
  have C: "''m1'' \<notin> messageIdsIn (panelChats_u ?a)"
    using T2 [THEN conjunct2, THEN conjunct1] by simp
  have D: "''m1'' \<notin> messageIdsIn (panelChats_u ?v)"
    using T2 [THEN conjunct2, THEN conjunct2] by simp
  show ?thesis using led res A B res' C D by (intro conjI)
qed

text \<open>
  A snapshot without \<open>deletedChats\<close>: its ledger cannot be read as it was parsed, and
  \<open>processCommit\<close> handles it as the same snapshot with an empty ledger and attributes
  its message; so does the walk at the commit that holds it.
\<close>

theorem schema_tolerance_witness:
  "panelChatIDsOf (exampleSnapshot [exampleChat ''A'' [''m1'']] None) = Inl TypeError
   \<and> processCommit (exampleSnapshot [exampleChat ''A'' [''m1'']] None) {''m1''} {''A''} {}
      (exampleCommit ''c1'' ''first'' []) ''c1''
     = processCommit
        (exampleSnapshot [exampleChat ''A'' [''m1'']]
           (Some \<lparr>deletedMessageIDs = IdArray [], deletedPanelChatIDs = IdArray []\<rparr>))
        {''m1''} {''A''} {} (exampleCommit ''c1'' ''first'' []) ''c1''
   \<and> (\<exists>commitData1 seen1.
        processCommit (exampleSnapshot [exampleChat ''A'' [''m1'']] None) {''m1''} {''A''} {}
          (exampleCommit ''c1'' ''first'' []) ''c1'' = Inr (commitData1, seen1) \<and>
        messageIdsIn (panelChats_c commitData1) = {''m1''})
   \<and> (\<exists>commitData1 seen1.
        visitCommit
          (exampleHost (exampleSnapshot [exampleChat ''A'' [''m1'']] None)
             [exampleLine ''c1'' ''first'']
             [(''c1'', exampleSnapshot [exampleChat ''A'' [''m1'']] None)] [])
          {''m1''} {''A''} (exampleLine ''c1'' ''first'') ([], {})
        = Inr ([(''c1'', commitData1)], seen1))"
proof -
  let ?s = "exampleSnapshot [exampleChat ''A'' [''m1'']] None"
  let ?cd = "exampleCommit ''c1'' ''first'' []"
  let ?h = "exampleHost (exampleSnapshot [exampleChat ''A'' [''m1'']] None)
             [exampleLine ''c1'' ''first'']
             [(''c1'', exampleSnapshot [exampleChat ''A'' [''m1'']] None)] []"
  let ?l = "exampleLine ''c1'' ''first''"
  have none: "deletedChats ?s = None" by code_simp
  have upd: "?s\<lparr>deletedChats := Some \<lparr>deletedMessageIDs = IdArray [], deletedPanelChatIDs = IdArray []\<rparr>\<rparr>
        = exampleSnapshot [exampleChat ''A'' [''m1'']]
           (Some \<lparr>deletedMessageIDs = IdArray [], deletedPanelChatIDs = IdArray []\<rparr>)"
    by (simp add: exampleSnapshot_def)
  have ids: "messageIdsIn (panelChats_c ?cd) \<union> ((messageIdsIn (panelChats ?s) \<inter> {''m1''}) - {})
        = {''m1''}"
    by (simp add: exampleCommit_def exampleSnapshot_def exampleChat_def exampleMessage_def)
  have content: "contentAt ?h ?l = Some ?s" by code_simp
  have nodel: "\<not> isDeletionCommit (commitMessageOf ?l)" by code_simp
  have hash: "commitHashOf ?l = ''c1''" by code_simp
  note T = schema_tolerance [of ?s "{''m1''}" "{''A''}" "{}" ?cd "''c1''" ?h ?l "[]"]
  have A: "panelChatIDsOf ?s = Inl TypeError" using T none by blast
  have vis: "visibleIn ?s = messageIdsIn (panelChats ?s)" using T none by blast
  have B: "processCommit ?s {''m1''} {''A''} {} ?cd ''c1'' =
           processCommit (?s\<lparr>deletedChats := Some \<lparr>deletedMessageIDs = IdArray [],
                                   deletedPanelChatIDs = IdArray []\<rparr>\<rparr>)
             {''m1''} {''A''} {} ?cd ''c1''"
    using T none by blast
  obtain commitData1 seen1 where
    p: "processCommit ?s {''m1''} {''A''} {} ?cd ''c1'' = Inr (commitData1, seen1)"
    and m: "messageIdsIn (panelChats_c commitData1) =
              messageIdsIn (panelChats_c ?cd) \<union> ((visibleIn ?s \<inter> {''m1''}) - {})"
    using T by blast
  have C: "\<exists>commitData1 seen1.
        processCommit ?s {''m1''} {''A''} {} ?cd ''c1'' = Inr (commitData1, seen1) \<and>
        messageIdsIn (panelChats_c commitData1) = {''m1''}"
    using p m unfolding vis ids by blast
  have "\<exists>commitData1 seen1.
          visitCommit ?h {''m1''} {''A''} ?l ([], {}) =
            Inr (mapSet (commitHashOf ?l) commitData1 [], seen1)"
    using T content nodel by blast
  then have D: "\<exists>commitData1 seen1.
          visitCommit ?h {''m1''} {''A''} ?l ([], {}) = Inr ([(''c1'', commitData1)], seen1)"
    unfolding hash by simp
  show ?thesis using A B C D unfolding upd by (intro conjI)
qed

text \<open>
  Writing chat \<open>A\<close> with the message \<open>m1\<close> twice into an empty store.
\<close>

theorem idempotent_append_witness:
  "(\<exists>msgs. storedMessages
       (snd (writeChatToStashedState
          (snd (writeChatToStashedState (exampleContext None NotStored)
                  (exampleChat ''A'' [''m1''])))
          (exampleChat ''A'' [''m1''])))
       ''A'' = Some msgs \<and> countId ''m1'' msgs = 1)
   \<and> panelChats (readStashedState
         (snd (writeChatToStashedState (exampleContext None NotStored)
                 (exampleChat ''A'' [''m1'']))))
       = [exampleChat ''A'' [''m1'']]"
proof -
  let ?c = "exampleContext None NotStored"
  let ?chat = "exampleChat ''A'' [''m1'']"
  have idc: "id_panelChat ?chat = ''A''" by (simp add: exampleChat_def)
  have one: "countId ''m1'' (messages ?chat) = 1" by code_simp
  have none: "storedMessages ?c (id_panelChat ?chat) = None" by code_simp
  then have le: "\<forall>msgs. storedMessages ?c (id_panelChat ?chat) = Some msgs \<longrightarrow> countId ''m1'' msgs \<le> 1"
    by simp
  have empty: "panelChats (readStashedState ?c) = []" by code_simp
  note T = idempotent_append [of ?c ?chat "''m1''"]
  have A: "\<exists>msgs. storedMessages
       (snd (writeChatToStashedState (snd (writeChatToStashedState ?c ?chat)) ?chat))
       (id_panelChat ?chat) = Some msgs \<and> countId ''m1'' msgs = 1"
    using T one le by blast
  have B: "panelChats (readStashedState (snd (writeChatToStashedState ?c ?chat)))
       = panelChats (readStashedState ?c) @ [?chat]"
    using T none by blast
  show ?thesis using A B unfolding idc empty by simp
qed

text \<open>
  Commit \<open>c2\<close> keeps chat \<open>A\<close>, whose only message went to \<open>c1\<close>, and adds chat \<open>B\<close>: the
  commit data of \<open>c2\<close> holds chat \<open>B\<close> alone.
\<close>

theorem empty_chat_pruning_ctx_witness:
  "getGitHistory_ctx
     (exampleContext
        (Some (exampleSnapshot [exampleChat ''A'' [''m1''], exampleChat ''B'' [''m2'']] None))
        NotStored)
     (exampleHost (exampleSnapshot [] None)
        [exampleLine ''c1'' ''first'', exampleLine ''c2'' ''second'']
        [(''c1'', exampleSnapshot [exampleChat ''A'' [''m1'']] None),
         (''c2'', exampleSnapshot [exampleChat ''A'' [''m1''], exampleChat ''B'' [''m2'']] None)] [])
     ''.gait/stashedGaitState2.json''
     = Inr \<lparr>commits_ctx =
              [\<lparr>commitHash = ''c1'', date = Some ''Mon Oct 7'', commitMessage = ''first'',
                author = Some ''ann'', panelChats_c = [exampleChat ''A'' [''m1'']],
                inlineChats_c = []\<rparr>,
               \<lparr>commitHash = ''c2'', date = Some ''Mon Oct 7'', commitMessage = ''second'',
                author = Some ''ann'', panelChats_c = [exampleChat ''B'' [''m2'']],
                inlineChats_c = []\<rparr>],
            added_ctx = Some \<lparr>panelChats_u = [], inlineChats_u = []\<rparr>,
            uncommitted_ctx = Some \<lparr>panelChats_u = [], inlineChats_u = []\<rparr>\<rparr>
   \<and> panelChats_c \<lparr>commitHash = ''c2'', date = Some ''Mon Oct 7'', commitMessage = ''second'',
                author = Some ''ann'', panelChats_c = [exampleChat ''B'' [''m2'']],
                inlineChats_c = []\<rparr> \<noteq> []"
proof -
  let ?c = "exampleContext
        (Some (exampleSnapshot [exampleChat ''A'' [''m1''], exampleChat ''B'' [''m2'']] None))
        NotStored"
  let ?h = "exampleHost (exampleSnapshot [] None)
        [exampleLine ''c1'' ''first'', exampleLine ''c2'' ''second'']
        [(''c1'', exampleSnapshot [exampleChat ''A'' [''m1'']] None),
         (''c2'', exampleSnapshot [exampleChat ''A'' [''m1''], exampleChat ''B'' [''m2'']] None)] []"
  let ?k1 = "\<lparr>commitHash = ''c1'', date = Some ''Mon Oct 7'', commitMessage = ''first'',
                author = Some ''ann'', panelChats_c = [exampleChat ''A'' [''m1'']],
                inlineChats_c = []\<rparr>"
  let ?k2 = "\<lparr>commitHash = ''c2'', date = Some ''Mon Oct 7'', commitMessage = ''second'',
                author = Some ''ann'', panelChats_c = [exampleChat ''B'' [''m2'']],
                inlineChats_c = []\<rparr>"
  let ?r = "\<lparr>commits_ctx = [?k1, ?k2],
            added_ctx = Some \<lparr>panelChats_u = [], inlineChats_u = []\<rparr>,
            uncommitted_ctx = Some \<lparr>panelChats_u = [], inlineChats_u = []\<rparr>\<rparr>"
  have res: "getGitHistory_ctx ?c ?h ''.gait/stashedGaitState2.json'' = Inr ?r" by code_simp
  have "?k2 \<in> set (commits_ctx ?r)" by simp
  then have "panelChats_c ?k2 \<noteq> []"
    using empty_chat_pruning_ctx [OF res] by blast
  then show ?thesis using res by (intro conjI)
qed

end
